theory Spec2Isabelle
  imports Complex_Main "HOL-Library.AList" "HOL-Library.Word"
begin

section \<open>Security exceptions\<close>

text \<open>
  \<^verbatim>\<open>SecurityException\<close> of \<^verbatim>\<open>security_improved.py\<close> is one Python class whose instances
  differ by their message. Each raise site of the source is one constructor, carrying
  the values the message is formatted from.
\<close>

datatype security_exception =
    ClientLockedOut int
  | CodeTooLong int
  | InvalidSyntax
  | DisallowedOperation string
  | ImportNotAllowed string
  | WildcardImport
  | DangerousFunctionCall string
  | DangerousMethodCall string
  | DangerousAttributeAccess string
  | DangerousNameAccess string
  | InvalidAuthToken

section \<open>ImprovedRateLimiter\<close>

text \<open>
  The three dictionaries of the limiter are association lists in insertion order, read
  with \<^const>\<open>map_of\<close> and written with \<^const>\<open>AList.update\<close> and \<^const>\<open>AList.delete\<close>.
  Timestamps are the values of \<^verbatim>\<open>time.time()\<close>; every operation that reads the clock
  takes the reading as its argument \<open>now\<close>.
\<close>

record rate_limiter =
  request_history :: "(string \<times> real list) list"
  failed_auth_attempts :: "(string \<times> real list) list"
  lockouts :: "(string \<times> real) list"

definition new_rate_limiter :: rate_limiter where
  "new_rate_limiter = \<lparr>request_history = [], failed_auth_attempts = [], lockouts = []\<rparr>"

text \<open>\<^verbatim>\<open>self.limits\<close>: per operation type, the pair \<open>(max, window)\<close>.\<close>

definition limits :: "(string \<times> (nat \<times> real)) list" where
  "limits =
     [(''authentication'', (5, 900)),
      (''expensive'', (10, 600)),
      (''normal'', (30, 60)),
      (''cheap'', (100, 60))]"

text \<open>\<^verbatim>\<open>self.limits.get(operation_type, self.limits['normal'])\<close>\<close>

definition limits_get :: "string \<Rightarrow> nat \<times> real" where
  "limits_get operation_type =
     (case map_of limits operation_type of
        Some l \<Rightarrow> l
      | None \<Rightarrow> the (map_of limits ''normal''))"

text \<open>Python's \<^verbatim>\<open>max\<close> of a non-empty list.\<close>

fun list_max :: "real list \<Rightarrow> real" where
  "list_max [] = 0"
| "list_max [x] = x"
| "list_max (x # y # ys) = max x (list_max (y # ys))"

text \<open>
  \<^verbatim>\<open>_cleanup_old_clients\<close>: drops every key whose request list is empty or whose newest
  request is older than twice the longest window.
\<close>

definition cleanup_old_clients :: "real \<Rightarrow> (string \<times> real list) list \<Rightarrow> (string \<times> real list) list" where
  "cleanup_old_clients now history =
     (let cutoff = now - list_max (map (\<lambda>(_, l). snd l) limits) * 2
      in filter (\<lambda>(key, requests). \<not> (requests = [] \<or> list_max requests < cutoff)) history)"

text \<open>\<^verbatim>\<open>key = f"{client_addr}:{operation_type}"\<close>\<close>

definition history_key :: "string \<Rightarrow> string \<Rightarrow> string" where
  "history_key client_addr operation_type = client_addr @ '':'' @ operation_type"

text \<open>
  \<^verbatim>\<open>check_rate_limit\<close>. The result is \<open>Inl\<close> of the raised exception, or \<open>Inr\<close> of the
  returned boolean; the second component is the limiter after the call.
\<close>

definition check_rate_limit ::
  "rate_limiter \<Rightarrow> real \<Rightarrow> string \<Rightarrow> string \<Rightarrow> (security_exception + bool) \<times> rate_limiter" where
  "check_rate_limit rl now client_addr operation_type =
     (let locked =
            (case map_of (lockouts rl) client_addr of
               None \<Rightarrow> None
             | Some lockout_until \<Rightarrow> if now < lockout_until then Some lockout_until else None)
      in case locked of
           Some lockout_until \<Rightarrow> (Inl (ClientLockedOut \<lfloor>lockout_until - now\<rfloor>), rl)
         | None \<Rightarrow>
             (let rl1 = rl\<lparr>lockouts := AList.delete client_addr (lockouts rl)\<rparr>;
                  (max_requests, window_seconds) = limits_get operation_type;
                  key = history_key client_addr operation_type;
                  old = (case map_of (request_history rl1) key of None \<Rightarrow> [] | Some h \<Rightarrow> h);
                  cutoff = now - window_seconds;
                  kept = filter (\<lambda>t. t > cutoff) old;
                  rl2 = rl1\<lparr>request_history := AList.update key kept (request_history rl1)\<rparr>
              in if length kept \<ge> max_requests then (Inr False, rl2)
                 else
                   (let h3 = AList.update key (kept @ [now]) (request_history rl2);
                        h4 = (if length h3 > 1000 then cleanup_old_clients now h3 else h3)
                    in (Inr True, rl2\<lparr>request_history := h4\<rparr>))))"

text \<open>\<^verbatim>\<open>record_failed_auth\<close>: prune to the last hour, append, and lock out from the fifth on.\<close>

definition lockout_duration :: "nat \<Rightarrow> nat" where
  "lockout_duration attempt_count = min (60 * 60) (60 * (2 ^ (attempt_count - 5)))"

definition record_failed_auth :: "rate_limiter \<Rightarrow> real \<Rightarrow> string \<Rightarrow> rate_limiter" where
  "record_failed_auth rl now client_addr =
     (let old = (case map_of (failed_auth_attempts rl) client_addr of None \<Rightarrow> [] | Some a \<Rightarrow> a);
          cutoff = now - 3600;
          attempts = filter (\<lambda>t. t > cutoff) old @ [now];
          rl1 = rl\<lparr>failed_auth_attempts := AList.update client_addr attempts (failed_auth_attempts rl)\<rparr>;
          attempt_count = length attempts
      in if attempt_count \<ge> 5
         then rl1\<lparr>lockouts := AList.update client_addr (now + real (lockout_duration attempt_count)) (lockouts rl1)\<rparr>
         else rl1)"

text \<open>\<^verbatim>\<open>record_successful_auth\<close>\<close>

definition record_successful_auth :: "rate_limiter \<Rightarrow> string \<Rightarrow> rate_limiter" where
  "record_successful_auth rl client_addr =
     rl\<lparr>failed_auth_attempts := AList.delete client_addr (failed_auth_attempts rl),
        lockouts := AList.delete client_addr (lockouts rl)\<rparr>"

text \<open>A run of calls of one client for one operation type, at the given clock readings.\<close>

fun check_rate_limit_run ::
  "rate_limiter \<Rightarrow> string \<Rightarrow> string \<Rightarrow> real list \<Rightarrow> (security_exception + bool) list \<times> rate_limiter" where
  "check_rate_limit_run rl client_addr operation_type [] = ([], rl)"
| "check_rate_limit_run rl client_addr operation_type (now # later) =
     (let (r, rl1) = check_rate_limit rl now client_addr operation_type;
          (rs, rl2) = check_rate_limit_run rl1 client_addr operation_type later
      in (r # rs, rl2))"

text \<open>A run of failed authentications of one client.\<close>

fun record_failed_auth_run :: "rate_limiter \<Rightarrow> string \<Rightarrow> real list \<Rightarrow> rate_limiter" where
  "record_failed_auth_run rl client_addr [] = rl"
| "record_failed_auth_run rl client_addr (now # later) =
     record_failed_auth_run (record_failed_auth rl now client_addr) client_addr later"

text \<open>The request list stored under a key, empty when the key is absent.\<close>

definition history_of :: "rate_limiter \<Rightarrow> string \<Rightarrow> real list" where
  "history_of rl key = (case map_of (request_history rl) key of None \<Rightarrow> [] | Some h \<Rightarrow> h)"

text \<open>The failure timestamps stored for a client, empty when the client is absent.\<close>

definition failures_of :: "rate_limiter \<Rightarrow> string \<Rightarrow> real list" where
  "failures_of rl client_addr =
     (case map_of (failed_auth_attempts rl) client_addr of None \<Rightarrow> [] | Some a \<Rightarrow> a)"

section \<open>AsyncOperationManager\<close>

text \<open>\<^verbatim>\<open>OperationStatus\<close> of \<^verbatim>\<open>async_executor.py\<close>.\<close>

datatype operation_status = PENDING | RUNNING | COMPLETED | FAILED | CANCELLED | TIMEOUT

text \<open>
  The \<^verbatim>\<open>error\<close> field of a result: the timeout text is formatted from the executor's
  timeout, any other text is \<^verbatim>\<open>str(e)\<close> of the exception the handler raised.
\<close>

datatype operation_error = TimedOutAfter real | ErrorText string

text \<open>\<^verbatim>\<open>AsyncOperationResult\<close>; \<open>'r\<close> is the type of the values a handler returns.\<close>

record 'r async_operation_result =
  request_id :: string
  status :: operation_status
  progress :: int
  progress_message :: string
  result :: "'r option"
  error :: "operation_error option"
  start_time :: real
  end_time :: "real option"
  cancelled :: bool

definition new_result :: "string \<Rightarrow> real \<Rightarrow> 'r async_operation_result" where
  "new_result rid now =
     \<lparr>request_id = rid, status = PENDING, progress = 0, progress_message = [],
      result = None, error = None, start_time = now, end_time = None, cancelled = False\<rparr>"

text \<open>
  Python's truth value of \<^verbatim>\<open>end_time\<close>: \<^verbatim>\<open>None\<close> and \<^verbatim>\<open>0.0\<close> are false.
\<close>

definition truthy_time :: "real option \<Rightarrow> real option" where
  "truthy_time t = (case t of None \<Rightarrow> None | Some x \<Rightarrow> if x = 0 then None else Some x)"

text \<open>
  \<^verbatim>\<open>to_dict\<close>; \<open>elapsed_seconds\<close> is the value before \<^verbatim>\<open>round(elapsed, 2)\<close>.
\<close>

record 'r status_dict =
  d_request_id :: string
  d_status :: operation_status
  d_progress :: int
  d_progress_message :: string
  d_result :: "'r option"
  d_error :: "operation_error option"
  d_elapsed_seconds :: real
  d_completed :: bool

definition to_dict :: "'r async_operation_result \<Rightarrow> real \<Rightarrow> 'r status_dict" where
  "to_dict r now =
     \<lparr>d_request_id = request_id r, d_status = status r, d_progress = progress r,
      d_progress_message = progress_message r, d_result = result r, d_error = error r,
      d_elapsed_seconds = (case truthy_time (end_time r) of None \<Rightarrow> now | Some e \<Rightarrow> e) - start_time r,
      d_completed = (status r \<in> {COMPLETED, FAILED, CANCELLED, TIMEOUT})\<rparr>"

text \<open>
  \<^verbatim>\<open>AsyncCommandExecutor\<close>, a thread object. \<open>worker\<close> is where its thread stands:
  \<open>Scheduled\<close> after \<^verbatim>\<open>start()\<close> and before \<^verbatim>\<open>run()\<close> has begun, \<open>Executing\<close> inside
  \<^verbatim>\<open>run()\<close>, \<open>Finished\<close> after it. \<open>'h\<close> and \<open>'p\<close> are the types of handlers and of
  their parameters.
\<close>

datatype worker_phase = Scheduled | Executing | Finished

record ('h, 'p, 'r) async_command_executor =
  ex_request_id :: string
  command_type :: string
  handler :: 'h
  params :: 'p
  timeout :: real
  ex_cancelled :: bool
  result_obj :: "'r async_operation_result"
  worker :: worker_phase

text \<open>\<^verbatim>\<open>__init__\<close>: \<^verbatim>\<open>self.timeout = timeout or 300.0\<close>.\<close>

definition new_executor ::
  "string \<Rightarrow> string \<Rightarrow> 'h \<Rightarrow> 'p \<Rightarrow> real option \<Rightarrow> real \<Rightarrow> ('h, 'p, 'r) async_command_executor" where
  "new_executor rid ctype h ps tmo now =
     \<lparr>ex_request_id = rid, command_type = ctype, handler = h, params = ps,
      timeout = (case truthy_time tmo of None \<Rightarrow> 300 | Some t \<Rightarrow> t),
      ex_cancelled = False, result_obj = new_result rid now, worker = Scheduled\<rparr>"

text \<open>\<^verbatim>\<open>AsyncCommandExecutor.cancel\<close>\<close>

definition cancel :: "('h, 'p, 'r) async_command_executor \<Rightarrow> real \<Rightarrow> ('h, 'p, 'r) async_command_executor" where
  "cancel ex now =
     ex\<lparr>ex_cancelled := True,
        result_obj := (result_obj ex)\<lparr>status := CANCELLED, cancelled := True, end_time := Some now\<rparr>\<rparr>"

text \<open>
  \<^verbatim>\<open>AsyncCommandExecutor.run\<close>, in two steps of the worker thread. The first statement
  of \<^verbatim>\<open>run\<close> sets the status to running. The rest depends on how the handler ends:
  it returns a value, raises \<^verbatim>\<open>TimeoutError\<close>, or raises another exception.
\<close>

datatype 'r handler_outcome = Returned 'r | RaisedTimeoutError | RaisedException string

definition run_begin :: "('h, 'p, 'r) async_command_executor \<Rightarrow> ('h, 'p, 'r) async_command_executor" where
  "run_begin ex = ex\<lparr>result_obj := (result_obj ex)\<lparr>status := RUNNING\<rparr>, worker := Executing\<rparr>"

definition run_end ::
  "('h, 'p, 'r) async_command_executor \<Rightarrow> 'r handler_outcome \<Rightarrow> real \<Rightarrow> ('h, 'p, 'r) async_command_executor" where
  "run_end ex outcome now =
     (case outcome of
        Returned v \<Rightarrow>
          if \<not> ex_cancelled ex
          then ex\<lparr>result_obj := (result_obj ex)\<lparr>status := COMPLETED, result := Some v,
                                                progress := 100, end_time := Some now\<rparr>,
                  worker := Finished\<rparr>
          else ex\<lparr>worker := Finished\<rparr>
      | RaisedTimeoutError \<Rightarrow>
          ex\<lparr>result_obj := (result_obj ex)\<lparr>status := TIMEOUT, error := Some (TimedOutAfter (timeout ex)),
                                             end_time := Some now\<rparr>,
             worker := Finished\<rparr>
      | RaisedException msg \<Rightarrow>
          ex\<lparr>result_obj := (result_obj ex)\<lparr>status := FAILED, error := Some (ErrorText msg),
                                             end_time := Some now\<rparr>,
             worker := Finished\<rparr>)"

text \<open>
  \<^verbatim>\<open>report_progress\<close>, the callback handed to the handler; \<open>started\<close> is the clock
  reading taken by \<^verbatim>\<open>_execute_with_timeout\<close>. The first component is the exception the
  callback raises into the handler, if any.
\<close>

datatype callback_exception = InterruptedError | TimeoutError

definition report_progress ::
  "('h, 'p, 'r) async_command_executor \<Rightarrow> real \<Rightarrow> real \<Rightarrow> int \<Rightarrow> string
     \<Rightarrow> callback_exception option \<times> ('h, 'p, 'r) async_command_executor" where
  "report_progress ex started now percent message =
     (if ex_cancelled ex then (Some InterruptedError, ex)
      else
        (let ex1 = ex\<lparr>result_obj := (result_obj ex)\<lparr>progress := percent, progress_message := message\<rparr>\<rparr>
         in if now - started > timeout ex then (Some TimeoutError, ex1) else (None, ex1)))"

text \<open>\<^verbatim>\<open>AsyncOperationManager\<close>; the dictionary \<^verbatim>\<open>operations\<close> in insertion order.\<close>

record ('h, 'p, 'r) async_operation_manager =
  max_concurrent :: int
  cleanup_after :: real
  operations :: "(string \<times> ('h, 'p, 'r) async_command_executor) list"

definition new_manager :: "int \<Rightarrow> real \<Rightarrow> ('h, 'p, 'r) async_operation_manager" where
  "new_manager cap retention = \<lparr>max_concurrent = cap, cleanup_after = retention, operations = []\<rparr>"

datatype manager_error = OperationExists string | TooManyOperations int int

text \<open>The number of operations whose status is running, as \<^verbatim>\<open>start_operation\<close> counts it.\<close>

definition active_count :: "('h, 'p, 'r) async_operation_manager \<Rightarrow> int" where
  "active_count m =
     int (length (filter (\<lambda>(_, op). status (result_obj op) = RUNNING) (operations m)))"

text \<open>
  \<^verbatim>\<open>start_operation\<close> returns \<^verbatim>\<open>executor.result_obj\<close>: not a copy, but the object that
  the stored executor holds and that its thread writes to. Such a reference is the id
  the executor is stored under, and what a holder of the reference reads from it at
  some moment is the \<open>result_obj\<close> of that executor in the manager of that moment
  (\<open>None\<close> once the executor has been removed from the table).
\<close>

datatype result_ref = ResultOf string

fun read_result ::
  "('h, 'p, 'r) async_operation_manager \<Rightarrow> result_ref \<Rightarrow> 'r async_operation_result option" where
  "read_result m (ResultOf rid) = map_option result_obj (map_of (operations m) rid)"

text \<open>
  \<^verbatim>\<open>start_operation\<close>: the raised error, or the reference to the result object it
  returns, and the manager after the call. The new executor is stored and its thread
  started (\<open>worker = Scheduled\<close>) before the method returns.
\<close>

definition start_operation ::
  "('h, 'p, 'r) async_operation_manager \<Rightarrow> string \<Rightarrow> string \<Rightarrow> 'h \<Rightarrow> 'p \<Rightarrow> real option \<Rightarrow> real
     \<Rightarrow> (manager_error + result_ref) \<times> ('h, 'p, 'r) async_operation_manager" where
  "start_operation m rid ctype h ps tmo now =
     (if map_of (operations m) rid \<noteq> None then (Inl (OperationExists rid), m)
      else if active_count m \<ge> max_concurrent m
        then (Inl (TooManyOperations (active_count m) (max_concurrent m)), m)
      else
        (let executor = new_executor rid ctype h ps tmo now
         in (Inr (ResultOf rid),
             m\<lparr>operations := AList.update rid executor (operations m)\<rparr>)))"

text \<open>\<^verbatim>\<open>get_status\<close>\<close>

definition get_status ::
  "('h, 'p, 'r) async_operation_manager \<Rightarrow> string \<Rightarrow> real
     \<Rightarrow> 'r status_dict option \<times> ('h, 'p, 'r) async_operation_manager" where
  "get_status m rid now =
     (case map_of (operations m) rid of
        None \<Rightarrow> (None, m)
      | Some executor \<Rightarrow> (Some (to_dict (result_obj executor) now), m))"

text \<open>\<^verbatim>\<open>cancel_operation\<close>\<close>

definition cancel_operation ::
  "('h, 'p, 'r) async_operation_manager \<Rightarrow> string \<Rightarrow> real
     \<Rightarrow> bool \<times> ('h, 'p, 'r) async_operation_manager" where
  "cancel_operation m rid now =
     (case map_of (operations m) rid of
        None \<Rightarrow> (False, m)
      | Some executor \<Rightarrow>
          if status (result_obj executor) \<notin> {PENDING, RUNNING} then (False, m)
          else (True, m\<lparr>operations := AList.update rid (cancel executor now) (operations m)\<rparr>))"

text \<open>\<^verbatim>\<open>cleanup_completed\<close>\<close>

definition cleanup_completed ::
  "('h, 'p, 'r) async_operation_manager \<Rightarrow> real \<Rightarrow> nat \<times> ('h, 'p, 'r) async_operation_manager" where
  "cleanup_completed m now =
     (let old = (\<lambda>(rid, executor).
                   case truthy_time (end_time (result_obj executor)) of
                     None \<Rightarrow> False
                   | Some e \<Rightarrow> now - e > cleanup_after m);
          to_remove = map fst (filter old (operations m))
      in (length to_remove, m\<lparr>operations := fold AList.delete to_remove (operations m)\<rparr>))"

text \<open>\<^verbatim>\<open>cancel_all\<close>\<close>

definition cancel_all ::
  "('h, 'p, 'r) async_operation_manager \<Rightarrow> real \<Rightarrow> nat \<times> ('h, 'p, 'r) async_operation_manager" where
  "cancel_all m now =
     (let live = (\<lambda>executor. status (result_obj executor) \<in> {PENDING, RUNNING})
      in (length (filter (\<lambda>(_, executor). live executor) (operations m)),
          m\<lparr>operations :=
               map (\<lambda>(rid, executor). (rid, if live executor then cancel executor now else executor))
                 (operations m)\<rparr>))"

text \<open>
  What can happen to a manager: a call of one of its methods, or a step of the worker
  thread of the operation stored under an id. A worker step applies only where the
  thread stands at that step.
\<close>

datatype ('h, 'p, 'r) event =
    StartOperation string string 'h 'p "real option" real
  | GetStatus string real
  | CancelOperation string real
  | CleanupCompleted real
  | CancelAll real
  | WorkerBegins string
  | WorkerReports string real real int string
  | WorkerEnds string "'r handler_outcome" real

definition on_worker ::
  "('h, 'p, 'r) async_operation_manager \<Rightarrow> string \<Rightarrow> worker_phase
     \<Rightarrow> (('h, 'p, 'r) async_command_executor \<Rightarrow> ('h, 'p, 'r) async_command_executor)
     \<Rightarrow> ('h, 'p, 'r) async_operation_manager" where
  "on_worker m rid phase f =
     (case map_of (operations m) rid of
        None \<Rightarrow> m
      | Some executor \<Rightarrow>
          if worker executor = phase
          then m\<lparr>operations := AList.update rid (f executor) (operations m)\<rparr>
          else m)"

fun step ::
  "('h, 'p, 'r) async_operation_manager \<Rightarrow> ('h, 'p, 'r) event \<Rightarrow> ('h, 'p, 'r) async_operation_manager" where
  "step m (StartOperation rid ctype h ps tmo now) = snd (start_operation m rid ctype h ps tmo now)"
| "step m (GetStatus rid now) = snd (get_status m rid now)"
| "step m (CancelOperation rid now) = snd (cancel_operation m rid now)"
| "step m (CleanupCompleted now) = snd (cleanup_completed m now)"
| "step m (CancelAll now) = snd (cancel_all m now)"
| "step m (WorkerBegins rid) = on_worker m rid Scheduled run_begin"
| "step m (WorkerReports rid started now percent message) =
     on_worker m rid Executing (\<lambda>ex. snd (report_progress ex started now percent message))"
| "step m (WorkerEnds rid outcome now) = on_worker m rid Executing (\<lambda>ex. run_end ex outcome now)"

fun starts :: "string \<Rightarrow> ('h, 'p, 'r) event \<Rightarrow> bool" where
  "starts rid (StartOperation rid' _ _ _ _ _) = (rid' = rid)"
| "starts rid _ = False"

definition run_events ::
  "('h, 'p, 'r) async_operation_manager \<Rightarrow> ('h, 'p, 'r) event list \<Rightarrow> ('h, 'p, 'r) async_operation_manager" where
  "run_events m evs = fold (\<lambda>ev m'. step m' ev) evs m"

text \<open>An operation whose worker has begun and whose status is neither pending nor running.\<close>

definition settled :: "('h, 'p, 'r) async_operation_manager \<Rightarrow> string \<Rightarrow> bool" where
  "settled m rid =
     (case map_of (operations m) rid of
        None \<Rightarrow> True
      | Some ex \<Rightarrow> worker ex \<noteq> Scheduled \<and> status (result_obj ex) \<notin> {PENDING, RUNNING})"

text \<open>No thread that has not begun to run has a status other than pending or cancelled.\<close>

definition unstarted_ok_ex :: "('h, 'p, 'r) async_command_executor \<Rightarrow> bool" where
  "unstarted_ok_ex ex = (worker ex = Scheduled \<longrightarrow> status (result_obj ex) \<in> {PENDING, CANCELLED})"

definition unstarted_ok :: "('h, 'p, 'r) async_operation_manager \<Rightarrow> bool" where
  "unstarted_ok m =
     (\<forall>rid. case map_of (operations m) rid of None \<Rightarrow> True | Some ex \<Rightarrow> unstarted_ok_ex ex)"

text \<open>The thread of the operation stored under an id, if any, has not begun to run.\<close>

definition not_begun :: "('h, 'p, 'r) async_operation_manager \<Rightarrow> string \<Rightarrow> bool" where
  "not_begun m rid =
     (case map_of (operations m) rid of None \<Rightarrow> True | Some ex \<Rightarrow> worker ex = Scheduled)"

section \<open>ImprovedCodeSandbox\<close>

text \<open>
  The syntax tree that \<^verbatim>\<open>ast.parse\<close> returns, as far as validation reads it. The node
  classes whose fields validation reads have a constructor each; any other node is
  \<open>Node\<close> with its class name and its child nodes in field order. \<open>Alias\<close> is
  \<^verbatim>\<open>ast.alias\<close>, \<open>Context\<close> the \<^verbatim>\<open>ctx\<close> node of a name or an attribute.
\<close>

datatype expr_context = Load | Store | Del

datatype ast =
    Import "string list"
  | ImportFrom "string option" "string list"
  | Call ast "ast list"
  | Attribute ast string expr_context
  | Name string expr_context
  | Alias string
  | Context expr_context
  | Node string "ast list"

text \<open>\<^verbatim>\<open>type(node).__name__\<close>\<close>

fun class_name :: "ast \<Rightarrow> string" where
  "class_name (Import _) = ''Import''"
| "class_name (ImportFrom _ _) = ''ImportFrom''"
| "class_name (Call _ _) = ''Call''"
| "class_name (Attribute _ _ _) = ''Attribute''"
| "class_name (Name _ _) = ''Name''"
| "class_name (Alias _) = ''alias''"
| "class_name (Context Load) = ''Load''"
| "class_name (Context Store) = ''Store''"
| "class_name (Context Del) = ''Del''"
| "class_name (Node c _) = c"

text \<open>\<^verbatim>\<open>ast.iter_child_nodes\<close>: the fields that hold nodes, in field order.\<close>

fun iter_child_nodes :: "ast \<Rightarrow> ast list" where
  "iter_child_nodes (Import names) = map Alias names"
| "iter_child_nodes (ImportFrom _ names) = map Alias names"
| "iter_child_nodes (Call func rest) = func # rest"
| "iter_child_nodes (Attribute v _ ctx) = [v, Context ctx]"
| "iter_child_nodes (Name _ ctx) = [Context ctx]"
| "iter_child_nodes (Alias _) = []"
| "iter_child_nodes (Context _) = []"
| "iter_child_nodes (Node _ children) = children"

text \<open>The number of nodes of a tree, the measure by which the walk ends.\<close>

fun node_count :: "ast \<Rightarrow> nat" where
  "node_count (Import names) = Suc (length names)"
| "node_count (ImportFrom _ names) = Suc (length names)"
| "node_count (Call func rest) = Suc (node_count func + sum_list (map node_count rest))"
| "node_count (Attribute v _ _) = Suc (Suc (node_count v))"
| "node_count (Name _ _) = 2"
| "node_count (Alias _) = 1"
| "node_count (Context _) = 1"
| "node_count (Node _ children) = Suc (sum_list (map node_count children))"

lemma children_smaller: "sum_list (map node_count (iter_child_nodes node)) < node_count node"
  by (cases node) (simp_all add: comp_def sum_list_triv)

text \<open>
  \<^verbatim>\<open>ast.walk\<close>: a queue of nodes; the first is taken off, its children are put at the
  end, and it is yielded. The argument is the queue.
\<close>

function walk :: "ast list \<Rightarrow> ast list" where
  "walk [] = []"
| "walk (node # todo) = node # walk (todo @ iter_child_nodes node)"
  by pat_completeness auto
termination
  by (relation "measure (\<lambda>todo. sum_list (map node_count todo))")
     (use children_smaller in \<open>simp_all add: less_Suc_eq_le\<close>)

text \<open>\<^verbatim>\<open>ALLOWED_NODES\<close>, by class name.\<close>

definition ALLOWED_NODES :: "string list" where
  "ALLOWED_NODES =
     [''Module'', ''Expr'', ''Assign'', ''AnnAssign'', ''AugAssign'',
      ''Name'', ''Constant'', ''Num'', ''Str'', ''Bytes'',
      ''List'', ''Tuple'', ''Set'', ''Dict'',
      ''BinOp'', ''UnaryOp'', ''Compare'', ''BoolOp'',
      ''IfExp'', ''If'', ''For'', ''While'', ''Break'', ''Continue'',
      ''FunctionDef'', ''Return'', ''Pass'',
      ''Call'', ''Attribute'', ''Subscript'', ''Index'', ''Slice'',
      ''ListComp'', ''DictComp'', ''SetComp'', ''GeneratorExp'',
      ''comprehension'',
      ''Load'', ''Store'', ''Del'',
      ''Add'', ''Sub'', ''Mult'', ''Div'', ''FloorDiv'', ''Mod'', ''Pow'',
      ''LShift'', ''RShift'', ''BitOr'', ''BitXor'', ''BitAnd'',
      ''And'', ''Or'', ''Not'', ''Invert'', ''UAdd'', ''USub'',
      ''Eq'', ''NotEq'', ''Lt'', ''LtE'', ''Gt'', ''GtE'',
      ''Is'', ''IsNot'', ''In'', ''NotIn'',
      ''arg'', ''arguments'', ''keyword'']"

text \<open>\<^verbatim>\<open>ALLOWED_MODULES\<close>: per module, the names that may be imported from it.\<close>

definition ALLOWED_MODULES :: "(string \<times> string list) list" where
  "ALLOWED_MODULES =
     [(''qgis.core'',
        [''QgsProject'', ''QgsVectorLayer'', ''QgsRasterLayer'', ''QgsFeature'',
         ''QgsGeometry'', ''QgsPoint'', ''QgsPointXY'', ''QgsRectangle'',
         ''QgsCoordinateReferenceSystem'', ''QgsCoordinateTransform'',
         ''QgsField'', ''QgsFields'', ''QgsExpression'', ''QgsFeatureRequest'',
         ''QgsWkbTypes'', ''QgsLayerTreeLayer'', ''QgsLayerTreeGroup'',
         ''QgsMapLayer'', ''QgsVectorFileWriter'', ''QgsRasterFileWriter'']),
      (''qgis.utils'', [''iface'']),
      (''PyQt5.QtCore'', [''QVariant'', ''Qt'', ''QDateTime'', ''QDate'', ''QTime'']),
      (''PyQt5.QtGui'', [''QColor''])]"

definition DANGEROUS_ATTRS :: "string list" where
  "DANGEROUS_ATTRS =
     [''__builtins__'', ''__globals__'', ''__locals__'', ''__dict__'',
      ''__class__'', ''__bases__'', ''__subclasses__'', ''__import__'',
      ''__code__'', ''__closure__'', ''__func__'', ''__self__'',
      ''func_globals'', ''func_code'', ''gi_frame'', ''gi_code'']"

definition DANGEROUS_FUNCTIONS :: "string list" where
  "DANGEROUS_FUNCTIONS =
     [''eval'', ''exec'', ''compile'', ''__import__'',
      ''open'', ''input'', ''exit'', ''quit'',
      ''help'', ''vars'', ''dir'', ''globals'', ''locals'',
      ''getattr'', ''setattr'', ''delattr'', ''hasattr'',
      ''breakpoint'', ''memoryview'', ''bytearray'']"

text \<open>
  The first exception a loop over \<open>xs\<close> raises, where \<open>check x\<close> is the exception the
  loop body raises for \<open>x\<close>, if any.
\<close>

fun first_raised :: "('a \<Rightarrow> security_exception option) \<Rightarrow> 'a list \<Rightarrow> security_exception option" where
  "first_raised check [] = None"
| "first_raised check (x # xs) = (case check x of Some e \<Rightarrow> Some e | None \<Rightarrow> first_raised check xs)"

text \<open>
  \<^verbatim>\<open>_validate_import\<close>. The module of a relative import is \<^verbatim>\<open>None\<close>, which is in no
  table and is formatted as \<^verbatim>\<open>None\<close>.
\<close>

fun validate_import :: "ast \<Rightarrow> security_exception option" where
  "validate_import (Import names) =
     first_raised
       (\<lambda>modname. if map_of ALLOWED_MODULES modname = None then Some (ImportNotAllowed modname) else None)
       names"
| "validate_import (ImportFrom modname names) =
     (case (case modname of None \<Rightarrow> None | Some m \<Rightarrow> map_option (Pair m) (map_of ALLOWED_MODULES m)) of
        None \<Rightarrow> Some (ImportNotAllowed (case modname of None \<Rightarrow> ''None'' | Some m \<Rightarrow> m))
      | Some (m, allowed_names) \<Rightarrow>
          first_raised
            (\<lambda>name. if name = ''*'' then Some WildcardImport
                     else if name \<notin> set allowed_names then Some (ImportNotAllowed (m @ ''.'' @ name))
                     else None)
            names)"
| "validate_import _ = None"

text \<open>\<^verbatim>\<open>_validate_call\<close>\<close>

fun validate_call :: "ast \<Rightarrow> security_exception option" where
  "validate_call (Call (Name func_name _) _) =
     (if func_name \<in> set DANGEROUS_FUNCTIONS then Some (DangerousFunctionCall func_name) else None)"
| "validate_call (Call (Attribute _ attr _) _) =
     (if attr \<in> set DANGEROUS_FUNCTIONS then Some (DangerousMethodCall attr) else None)"
| "validate_call _ = None"

text \<open>\<^verbatim>\<open>_validate_attribute\<close>\<close>

fun validate_attribute :: "ast \<Rightarrow> security_exception option" where
  "validate_attribute (Attribute _ attr _) =
     (if attr \<in> set DANGEROUS_ATTRS then Some (DangerousAttributeAccess attr) else None)"
| "validate_attribute _ = None"

text \<open>\<^verbatim>\<open>_validate_name\<close>\<close>

fun validate_name :: "ast \<Rightarrow> security_exception option" where
  "validate_name (Name ident ctx) =
     (if ident \<in> set DANGEROUS_FUNCTIONS \<and> ctx = Load then Some (DangerousNameAccess ident) else None)"
| "validate_name _ = None"

text \<open>
  The body of the loop of \<^verbatim>\<open>validate_code\<close> for one node: the class check first, then
  the check that belongs to the node's class.
\<close>

definition validate_node :: "ast \<Rightarrow> security_exception option" where
  "validate_node node =
     (if class_name node \<notin> set ALLOWED_NODES then Some (DisallowedOperation (class_name node))
      else case node of
             Import _ \<Rightarrow> validate_import node
           | ImportFrom _ _ \<Rightarrow> validate_import node
           | Call _ _ \<Rightarrow> validate_call node
           | Attribute _ _ _ \<Rightarrow> validate_attribute node
           | Name _ _ \<Rightarrow> validate_name node
           | _ \<Rightarrow> None)"

text \<open>The loop \<^verbatim>\<open>for node in ast.walk(tree)\<close>.\<close>

definition validate_tree :: "ast \<Rightarrow> security_exception option" where
  "validate_tree tree = first_raised validate_node (walk [tree])"

text \<open>
  How \<^verbatim>\<open>ast.parse\<close> ends: with the tree, with \<^verbatim>\<open>SyntaxError\<close>, or with another
  exception. For source text that nests too deeply it raises \<^verbatim>\<open>RecursionError\<close> or
  \<^verbatim>\<open>MemoryError\<close>, for some interpreters \<^verbatim>\<open>ValueError\<close> on a null character.
\<close>

datatype parse_exception = RecursionError | MemoryError | ValueError

datatype parse_result = Parsed ast | RaisesSyntaxError | RaisesOther parse_exception

text \<open>
  What \<^verbatim>\<open>validate_code\<close> raises: a \<^verbatim>\<open>SecurityException\<close>, or an exception of
  \<^verbatim>\<open>ast.parse\<close> that its \<^verbatim>\<open>except SyntaxError\<close> does not catch.
\<close>

datatype validation_raise = Security security_exception | Uncaught parse_exception

text \<open>
  The sandbox object, and \<^verbatim>\<open>validate_code\<close>. \<open>parse\<close> stands for \<^verbatim>\<open>ast.parse\<close>. The
  result is the raised exception, or \<open>Inr ()\<close> when the method returns, and the sandbox
  after the call.
\<close>

record code_sandbox =
  max_code_length :: int
  timeout_seconds :: int

definition validate_code ::
  "(string \<Rightarrow> parse_result) \<Rightarrow> code_sandbox \<Rightarrow> string \<Rightarrow> (validation_raise + unit) \<times> code_sandbox" where
  "validate_code parse sandbox code =
     (if int (length code) > max_code_length sandbox
      then (Inl (Security (CodeTooLong (max_code_length sandbox))), sandbox)
      else case parse code of
             RaisesSyntaxError \<Rightarrow> (Inl (Security InvalidSyntax), sandbox)
           | RaisesOther e \<Rightarrow> (Inl (Uncaught e), sandbox)
           | Parsed tree \<Rightarrow>
               (case validate_tree tree of
                  Some e \<Rightarrow> (Inl (Security e), sandbox)
                | None \<Rightarrow> (Inr (), sandbox)))"

text \<open>The source text \<^verbatim>\<open>x = a.b.b...b\<close> with \<open>n\<close> attribute accesses.\<close>

definition attribute_chain :: "nat \<Rightarrow> string" where
  "attribute_chain n = ''x = a'' @ concat (replicate n ''.b'')"

text \<open>All nodes of a tree.\<close>

fun subnodes :: "ast \<Rightarrow> ast set" where
  "subnodes (Import names) = insert (Import names) (Alias ` set names)"
| "subnodes (ImportFrom m names) = insert (ImportFrom m names) (Alias ` set names)"
| "subnodes (Call func rest) = insert (Call func rest) (subnodes func \<union> (\<Union>n \<in> set rest. subnodes n))"
| "subnodes (Attribute v attr ctx) = insert (Attribute v attr ctx) (insert (Context ctx) (subnodes v))"
| "subnodes (Name ident ctx) = {Name ident ctx, Context ctx}"
| "subnodes (Alias a) = {Alias a}"
| "subnodes (Context ctx) = {Context ctx}"
| "subnodes (Node c children) = insert (Node c children) (\<Union>n \<in> set children. subnodes n)"

section \<open>Messages\<close>

text \<open>
  The values a message is made of: \<^verbatim>\<open>None\<close>, booleans, integers, strings, lists, tuples
  and dictionaries with string keys, without floating-point numbers. A dictionary is
  the list of its items in insertion order. A sender can put a tuple into a message;
  the decoders of both serialization formats return lists only.
\<close>

datatype jval =
    JNull
  | JBool bool
  | JInt int
  | JStr string
  | JList "jval list"
  | JTuple "jval list"
  | JDict "(string \<times> jval) list"

type_synonym message = "(string \<times> jval) list"

text \<open>
  Whether \<^verbatim>\<open>hash(v)\<close> returns: lists and dictionaries are unhashable, a tuple is
  hashable when its elements are.
\<close>

fun hashable :: "jval \<Rightarrow> bool" where
  "hashable (JList _) = False"
| "hashable (JDict _) = False"
| "hashable (JTuple vs) = (\<forall>v \<in> set vs. hashable v)"
| "hashable _ = True"

text \<open>\<^verbatim>\<open>d.get(key, default)\<close>\<close>

definition dict_get :: "message \<Rightarrow> string \<Rightarrow> jval \<Rightarrow> jval" where
  "dict_get d key dflt = (case map_of d key of None \<Rightarrow> dflt | Some v \<Rightarrow> v)"

section \<open>SecureQGISMCPServer: the dispatcher\<close>

text \<open>
  The parts of the server that \<^verbatim>\<open>_process_message\<close> reads and writes: the flag
  \<^verbatim>\<open>require_auth\<close>, the rate limiter, and the token and the set of authenticated
  clients of the \<^verbatim>\<open>AuthenticationManager\<close>.
\<close>

record server =
  require_auth :: bool
  rate_limiter :: rate_limiter
  api_token :: string
  authenticated_clients :: "string set"

text \<open>How a command handler ends: with its result, or with an exception.\<close>

datatype handler_result = Returns jval | RaisesSecurityException | RaisesException

text \<open>The \<^verbatim>\<open>error\<close> text of a response; for a lockout it is \<^verbatim>\<open>str(e)\<close>.\<close>

datatype response_error =
    AuthenticationRequired
  | RateLimitExceeded
  | SecurityText security_exception
  | UnknownCommandType jval
  | OperationNotPermitted
  | InternalServerError

record response =
  resp_id :: jval
  resp_success :: bool
  resp_data :: "jval option"
  resp_error :: "response_error option"

definition failure :: "jval \<Rightarrow> response_error \<Rightarrow> response" where
  "failure msg_id e = \<lparr>resp_id = msg_id, resp_success = False, resp_data = None, resp_error = Some e\<rparr>"

text \<open>\<^verbatim>\<open>_get_operation_type\<close>\<close>

definition get_operation_type :: "jval \<Rightarrow> string" where
  "get_operation_type msg_type =
     (if msg_type = JStr ''authenticate'' then ''authentication''
      else if msg_type \<in> {JStr ''execute_code'', JStr ''load_layer''} then ''expensive''
      else if msg_type \<in> {JStr ''ping'', JStr ''get_stats''} then ''cheap''
      else ''normal'')"

text \<open>
  \<^verbatim>\<open>_handle_authenticate\<close> with \<^verbatim>\<open>verify_token\<close>; \<open>now\<close> is the clock reading of
  \<^verbatim>\<open>record_failed_auth\<close>. A \<^verbatim>\<open>data\<close> that is no dictionary, or a token that is no
  string of ASCII characters (\<^verbatim>\<open>hmac.compare_digest\<close> takes no other), ends in an
  exception of Python's own.
\<close>

definition handle_authenticate :: "server \<Rightarrow> real \<Rightarrow> message \<Rightarrow> string \<Rightarrow> handler_result \<times> server" where
  "handle_authenticate srv now msg client_id =
     (case dict_get msg ''data'' (JDict []) of
        JDict data \<Rightarrow>
          (case dict_get data ''token'' (JStr []) of
             JStr token \<Rightarrow>
               if \<not> list_all (\<lambda>c. (of_char c :: nat) < 128) token then (RaisesException, srv)
               else if api_token srv = token
               then (Returns (JDict [(''authenticated'', JBool True)]),
                     srv\<lparr>authenticated_clients := insert client_id (authenticated_clients srv),
                         rate_limiter := record_successful_auth (rate_limiter srv) client_id\<rparr>)
               else (RaisesSecurityException,
                     srv\<lparr>rate_limiter := record_failed_auth (rate_limiter srv) now client_id\<rparr>)
           | _ \<Rightarrow> (RaisesException, srv))
      | _ \<Rightarrow> (RaisesException, srv))"

text \<open>
  \<^verbatim>\<open>self.command_handlers\<close>. The handlers other than \<^verbatim>\<open>authenticate\<close> are the host
  application's; \<open>domain\<close> gives how the handler of a command ends for a message and
  a client. None of them reads or writes the limiter or the authentication state.
\<close>

definition command_names :: "string list" where
  "command_names =
     [''authenticate'', ''list_layers'', ''get_features'', ''load_layer'',
      ''execute_code'', ''get_stats'', ''ping'']"

text \<open>
  \<^verbatim>\<open>_process_message\<close>. \<open>now\<close> is the clock reading of \<^verbatim>\<open>check_rate_limit\<close>, \<open>later\<close>
  that of the handler. Looking up a message type that is unhashable raises
  \<^verbatim>\<open>TypeError\<close>, caught as any other exception.
\<close>

definition process_message ::
  "(string \<Rightarrow> message \<Rightarrow> string \<Rightarrow> handler_result) \<Rightarrow> server \<Rightarrow> real \<Rightarrow> real
     \<Rightarrow> message \<Rightarrow> string \<Rightarrow> bool \<Rightarrow> response \<times> server" where
  "process_message domain srv now later msg client_id authenticated =
     (let msg_id = dict_get msg ''id'' (JStr ''0'');
          msg_type = dict_get msg ''type'' (JStr ''unknown'')
      in if require_auth srv \<and> \<not> authenticated \<and> msg_type \<noteq> JStr ''authenticate''
         then (failure msg_id AuthenticationRequired, srv)
         else
           (let operation_type = get_operation_type msg_type;
                (checked, rl) = check_rate_limit (rate_limiter srv) now client_id operation_type;
                srv1 = srv\<lparr>rate_limiter := rl\<rparr>
            in case checked of
                 Inl e \<Rightarrow> (failure msg_id (SecurityText e), srv1)
               | Inr False \<Rightarrow> (failure msg_id RateLimitExceeded, srv1)
               | Inr True \<Rightarrow>
                   (case msg_type of
                      JStr name \<Rightarrow>
                        if name \<notin> set command_names
                        then (failure msg_id (UnknownCommandType msg_type), srv1)
                        else
                          (let (outcome, srv2) =
                                 (if name = ''authenticate''
                                  then handle_authenticate srv1 later msg client_id
                                  else (domain name msg client_id, srv1))
                           in case outcome of
                                Returns d \<Rightarrow>
                                  (\<lparr>resp_id = msg_id, resp_success = True, resp_data = Some d,
                                    resp_error = None\<rparr>, srv2)
                              | RaisesSecurityException \<Rightarrow> (failure msg_id OperationNotPermitted, srv2)
                              | RaisesException \<Rightarrow> (failure msg_id InternalServerError, srv2))
                    | _ \<Rightarrow>
                        if hashable msg_type
                        then (failure msg_id (UnknownCommandType msg_type), srv1)
                        else (failure msg_id InternalServerError, srv1))))"

text \<open>
  A host without QGIS: \<^verbatim>\<open>list_layers\<close>, \<^verbatim>\<open>get_features\<close>, \<^verbatim>\<open>load_layer\<close> and
  \<^verbatim>\<open>execute_code\<close> raise \<^verbatim>\<open>RuntimeError("QGIS not available")\<close>. \<^verbatim>\<open>_handle_ping\<close> and
  \<^verbatim>\<open>_handle_get_stats\<close> read nothing of QGIS and return their dictionaries:
  \<open>timestamp\<close> is the text of \<^verbatim>\<open>datetime.now().isoformat()\<close> and \<open>stats\<close> the report
  that \<^verbatim>\<open>_handle_get_stats\<close> assembles.
\<close>

definition host_without_qgis ::
  "string \<Rightarrow> jval \<Rightarrow> string \<Rightarrow> message \<Rightarrow> string \<Rightarrow> handler_result" where
  "host_without_qgis timestamp stats name msg client_id =
     (if name = ''ping''
      then Returns (JDict [(''pong'', JBool True), (''timestamp'', JStr timestamp),
                           (''server_version'', JStr ''2.0.0-secure'')])
      else if name = ''get_stats'' then Returns stats
      else RaisesException)"

section \<open>Protocol: schema validation\<close>

text \<open>
  A schema of \<^verbatim>\<open>MESSAGE_SCHEMAS\<close> is the list of its keywords. \<open>Properties ps extra\<close>
  holds the \<^verbatim>\<open>properties\<close> of a schema and whether properties beyond them are
  allowed (\<^verbatim>\<open>additionalProperties\<close> absent) or not (\<^verbatim>\<open>False\<close>).
\<close>

datatype keyword =
    Type "string list"
  | Const jval
  | MinLength nat
  | MaxLength nat
  | Minimum int
  | Maximum int
  | Required "string list"
  | Properties "(string \<times> keyword list) list" bool

type_synonym schema = "keyword list"

text \<open>
  The JSON type names a value has; \<^verbatim>\<open>True\<close> and \<^verbatim>\<open>False\<close> are no integers, and a tuple
  is no array (only a \<^verbatim>\<open>list\<close> is).
\<close>

fun has_type :: "jval \<Rightarrow> string \<Rightarrow> bool" where
  "has_type JNull t = (t = ''null'')"
| "has_type (JBool _) t = (t = ''boolean'')"
| "has_type (JInt _) t = (t = ''integer'' \<or> t = ''number'')"
| "has_type (JStr _) t = (t = ''string'')"
| "has_type (JList _) t = (t = ''array'')"
| "has_type (JTuple _) t = False"
| "has_type (JDict _) t = (t = ''object'')"

text \<open>
  \<^verbatim>\<open>jsonschema.validate\<close> for the keywords the table uses. A keyword constrains only
  the values of the type it is about: lengths strings, bounds numbers, \<^verbatim>\<open>required\<close>
  and \<^verbatim>\<open>properties\<close> objects.
\<close>

fun valid_keyword :: "keyword \<Rightarrow> jval \<Rightarrow> bool" where
  "valid_keyword (Type ts) v = (\<exists>t \<in> set ts. has_type v t)"
| "valid_keyword (Const c) v = (v = c)"
| "valid_keyword (MinLength n) v = (case v of JStr s \<Rightarrow> n \<le> length s | _ \<Rightarrow> True)"
| "valid_keyword (MaxLength n) v = (case v of JStr s \<Rightarrow> length s \<le> n | _ \<Rightarrow> True)"
| "valid_keyword (Minimum n) v = (case v of JInt i \<Rightarrow> n \<le> i | _ \<Rightarrow> True)"
| "valid_keyword (Maximum n) v = (case v of JInt i \<Rightarrow> i \<le> n | _ \<Rightarrow> True)"
| "valid_keyword (Required ks) v =
     (case v of JDict items \<Rightarrow> (\<forall>k \<in> set ks. map_of items k \<noteq> None) | _ \<Rightarrow> True)"
| "valid_keyword (Properties ps extra) v =
     (case v of
        JDict items \<Rightarrow>
          (\<forall>p \<in> set ps.
             case map_of items (fst p) of
               None \<Rightarrow> True
             | Some x \<Rightarrow> (\<forall>kw \<in> set (snd p). valid_keyword kw x))
          \<and> (extra \<or> (\<forall>k \<in> fst ` set items. k \<in> fst ` set ps))
      | _ \<Rightarrow> True)"

definition jsonschema_validate :: "schema \<Rightarrow> jval \<Rightarrow> bool" where
  "jsonschema_validate s v = (\<forall>kw \<in> set s. valid_keyword kw v)"

text \<open>\<^verbatim>\<open>MESSAGE_SCHEMAS\<close>\<close>

definition id_schema :: schema where
  "id_schema = [Type [''string'', ''integer'']]"

definition MESSAGE_SCHEMAS :: "(string \<times> schema) list" where
  "MESSAGE_SCHEMAS =
     [(''base'',
        [Type [''object''], Required [''type'', ''id''],
         Properties
           [(''type'', [Type [''string''], MinLength 1, MaxLength 50]),
            (''id'', [Type [''string'', ''integer''], MinLength 1, MaxLength 100]),
            (''data'', [Type [''object'']])] False]),
      (''authenticate'',
        [Type [''object''], Required [''type'', ''id'', ''data''],
         Properties
           [(''type'', [Const (JStr ''authenticate'')]),
            (''id'', id_schema),
            (''data'',
               [Type [''object''], Required [''token''],
                Properties [(''token'', [Type [''string''], MinLength 16, MaxLength 256])] False])]
           False]),
      (''execute_code'',
        [Type [''object''], Required [''type'', ''id'', ''data''],
         Properties
           [(''type'', [Const (JStr ''execute_code'')]),
            (''id'', id_schema),
            (''data'',
               [Type [''object''], Required [''code''],
                Properties [(''code'', [Type [''string''], MinLength 1, MaxLength 102400])] False])]
           False]),
      (''list_layers'',
        [Type [''object''], Required [''type'', ''id''],
         Properties
           [(''type'', [Const (JStr ''list_layers'')]),
            (''id'', id_schema),
            (''data'',
               [Type [''object''],
                Properties
                  [(''offset'', [Type [''integer''], Minimum 0, Maximum 10000]),
                   (''limit'', [Type [''integer''], Minimum 1, Maximum 100])] False])]
           False]),
      (''get_features'',
        [Type [''object''], Required [''type'', ''id'', ''data''],
         Properties
           [(''type'', [Const (JStr ''get_features'')]),
            (''id'', id_schema),
            (''data'',
               [Type [''object''], Required [''layer_id''],
                Properties
                  [(''layer_id'', [Type [''string''], MinLength 1, MaxLength 256]),
                   (''limit'', [Type [''integer''], Minimum 1, Maximum 10000]),
                   (''bbox'',
                      [Type [''object''], Required [''xmin'', ''ymin'', ''xmax'', ''ymax''],
                       Properties
                         [(''xmin'', [Type [''number'']]), (''ymin'', [Type [''number'']]),
                          (''xmax'', [Type [''number'']]), (''ymax'', [Type [''number'']])] True]),
                   (''filter_expression'', [Type [''string''], MaxLength 10000]),
                   (''attributes_only'', [Type [''boolean'']]),
                   (''simplify_tolerance'', [Type [''number''], Minimum 0, Maximum 1000])] False])]
           False]),
      (''load_layer'',
        [Type [''object''], Required [''type'', ''id'', ''data''],
         Properties
           [(''type'', [Const (JStr ''load_layer'')]),
            (''id'', id_schema),
            (''data'',
               [Type [''object''], Required [''path''],
                Properties
                  [(''path'', [Type [''string''], MinLength 1, MaxLength 4096]),
                   (''layer_name'', [Type [''string''], MaxLength 256])] False])]
           False]),
      (''response'',
        [Type [''object''], Required [''type'', ''id'', ''success''],
         Properties
           [(''type'', [Const (JStr ''response'')]),
            (''id'', id_schema),
            (''success'', [Type [''boolean'']]),
            (''data'', [Type [''object'', ''array'', ''string'', ''number'', ''boolean'', ''null'']]),
            (''error'', [Type [''string''], MaxLength 1000])] False])]"

section \<open>Protocol: framing\<close>

text \<open>
  What \<^verbatim>\<open>protocol.py\<close> raises. All but the last two are \<^verbatim>\<open>ProtocolException\<close>, told
  apart by their message. \<open>UnhashableMessageType\<close> is the \<^verbatim>\<open>TypeError\<close> of looking up
  an unhashable message type in \<^verbatim>\<open>MESSAGE_SCHEMAS\<close>. \<open>UncaughtLibraryException\<close> is an
  exception of a serialization library that is neither a \<^verbatim>\<open>TypeError\<close> nor a
  \<^verbatim>\<open>ValueError\<close>: \<^verbatim>\<open>serialize\<close> and \<^verbatim>\<open>deserialize\<close> do not catch it, and it leaves
  them as it is.
\<close>

datatype protocol_error =
    SerializationFailed
  | DeserializationFailed
  | NotADictionary
  | MissingTypeField
  | MissingIdField
  | SchemaValidationFailed
  | MessageTooLarge nat
  | BufferOverflow nat
  | MessageSizeExceedsLimit nat
  | ZeroLengthMessage
  | UnhashableMessageType
  | UncaughtLibraryException

type_synonym byte = "8 word"

definition MAX_MESSAGE_SIZE :: nat where
  "MAX_MESSAGE_SIZE = 10 * 1024 * 1024"

definition HEADER_SIZE :: nat where
  "HEADER_SIZE = 4"

text \<open>
  How a call into a serialization library ends: with a value; with a \<^verbatim>\<open>TypeError\<close> or
  a \<^verbatim>\<open>ValueError\<close>, the two classes that \<^verbatim>\<open>serialize\<close> and \<^verbatim>\<open>deserialize\<close> catch
  (\<^verbatim>\<open>UnicodeDecodeError\<close>, \<^verbatim>\<open>json.JSONDecodeError\<close> and the unpacking errors of msgpack
  are \<^verbatim>\<open>ValueError\<close>s); or with another exception, such as the \<^verbatim>\<open>OverflowError\<close> of
  \<^verbatim>\<open>msgpack.packb\<close> for an integer outside 64 bits or a \<^verbatim>\<open>RecursionError\<close>.
\<close>

datatype 'a library_result = Value 'a | TypeOrValueError | OtherException

text \<open>
  The serialization libraries. \<open>json_dumps\<close> stands for
  \<^verbatim>\<open>json.dumps(data).encode('utf-8')\<close> and \<open>json_loads\<close> for
  \<^verbatim>\<open>json.loads(data.decode('utf-8'))\<close>.
\<close>

record encoders =
  msgpack_packb :: "jval \<Rightarrow> byte list library_result"
  json_dumps :: "jval \<Rightarrow> byte list library_result"

record decoders =
  msgpack_unpackb :: "byte list \<Rightarrow> jval library_result"
  json_loads :: "byte list \<Rightarrow> jval library_result"

text \<open>\<^verbatim>\<open>ProtocolHandler\<close>: the two flags as \<^verbatim>\<open>__init__\<close> leaves them.\<close>

record protocol_handler =
  use_msgpack :: bool
  validate_schema :: bool

text \<open>\<^verbatim>\<open>serialize\<close>\<close>

definition serialize :: "encoders \<Rightarrow> protocol_handler \<Rightarrow> message \<Rightarrow> protocol_error + byte list" where
  "serialize lib h msg =
     (case (if use_msgpack h then msgpack_packb lib (JDict msg) else json_dumps lib (JDict msg)) of
        Value bs \<Rightarrow> Inr bs
      | TypeOrValueError \<Rightarrow> Inl SerializationFailed
      | OtherException \<Rightarrow> Inl UncaughtLibraryException)"

text \<open>\<^verbatim>\<open>deserialize\<close>\<close>

definition deserialize :: "decoders \<Rightarrow> protocol_handler \<Rightarrow> byte list \<Rightarrow> protocol_error + message" where
  "deserialize lib h bs =
     (case (if use_msgpack h then msgpack_unpackb lib bs else json_loads lib bs) of
        Value (JDict msg) \<Rightarrow> Inr msg
      | Value _ \<Rightarrow> Inl NotADictionary
      | TypeOrValueError \<Rightarrow> Inl DeserializationFailed
      | OtherException \<Rightarrow> Inl UncaughtLibraryException)"

text \<open>\<^verbatim>\<open>validate_message\<close>: the exception it raises, if any.\<close>

definition validate_message :: "protocol_handler \<Rightarrow> message \<Rightarrow> protocol_error option" where
  "validate_message h msg =
     (if \<not> validate_schema h then None
      else case map_of msg ''type'' of
             None \<Rightarrow> Some MissingTypeField
           | Some message_type \<Rightarrow>
               if map_of msg ''id'' = None then Some MissingIdField
               else if \<not> hashable message_type then Some UnhashableMessageType
               else
                 (let found = (case message_type of JStr name \<Rightarrow> map_of MESSAGE_SCHEMAS name
                                                   | _ \<Rightarrow> None);
                      schema = (case found of None \<Rightarrow> the (map_of MESSAGE_SCHEMAS ''base'')
                                            | Some s \<Rightarrow> s)
                  in if jsonschema_validate schema (JDict msg) then None
                     else Some SchemaValidationFailed))"

text \<open>\<^verbatim>\<open>struct.pack('!I', n)\<close> for \<open>n < 2 ^ 32\<close>, and \<^verbatim>\<open>struct.unpack('!I', ...)\<close>.\<close>

definition pack_header :: "nat \<Rightarrow> byte list" where
  "pack_header n =
     [of_nat (n div 16777216), of_nat (n div 65536), of_nat (n div 256), of_nat n]"

definition unpack_header :: "byte list \<Rightarrow> nat" where
  "unpack_header header_data =
     (case header_data of
        [a, b, c, d] \<Rightarrow> unat a * 16777216 + unat b * 65536 + unat c * 256 + unat d
      | _ \<Rightarrow> 0)"

text \<open>\<^verbatim>\<open>pack_message\<close>\<close>

definition pack_message :: "encoders \<Rightarrow> protocol_handler \<Rightarrow> message \<Rightarrow> protocol_error + byte list" where
  "pack_message lib h msg =
     (case validate_message h msg of
        Some e \<Rightarrow> Inl e
      | None \<Rightarrow>
          (case serialize lib h msg of
             Inl e \<Rightarrow> Inl e
           | Inr message_bytes \<Rightarrow>
               if length message_bytes > MAX_MESSAGE_SIZE
               then Inl (MessageTooLarge (length message_bytes))
               else Inr (pack_header (length message_bytes) @ message_bytes)))"

text \<open>\<^verbatim>\<open>BufferedProtocolHandler\<close>: the buffer and the size read from the header.\<close>

record read_buffer =
  buffer :: "byte list"
  expected_message_size :: "nat option"

definition empty_buffer :: read_buffer where
  "empty_buffer = \<lparr>buffer = [], expected_message_size = None\<rparr>"

text \<open>\<^verbatim>\<open>clear_buffer\<close>\<close>

definition clear_buffer :: "read_buffer \<Rightarrow> read_buffer" where
  "clear_buffer st = st\<lparr>buffer := [], expected_message_size := None\<rparr>"

text \<open>\<^verbatim>\<open>feed_data\<close>\<close>

definition feed_data :: "read_buffer \<Rightarrow> byte list \<Rightarrow> protocol_error + read_buffer" where
  "feed_data st data =
     (if length (buffer st) + length data > MAX_MESSAGE_SIZE
      then Inl (BufferOverflow (length (buffer st) + length data))
      else Inr (st\<lparr>buffer := buffer st @ data\<rparr>))"

text \<open>
  The last two steps of \<^verbatim>\<open>try_read_message\<close> and of \<^verbatim>\<open>receive_message\<close>: the payload is
  deserialized and the message validated.
\<close>

definition read_payload :: "decoders \<Rightarrow> protocol_handler \<Rightarrow> byte list \<Rightarrow> protocol_error + message" where
  "read_payload lib h message_data =
     (case deserialize lib h message_data of
        Inl e \<Rightarrow> Inl e
      | Inr msg \<Rightarrow> (case validate_message h msg of Some e \<Rightarrow> Inl e | None \<Rightarrow> Inr msg))"

text \<open>
  \<^verbatim>\<open>try_read_message\<close>: the raised exception, or the returned message (\<open>None\<close> while
  the frame is incomplete), and the buffer after the call.
\<close>

definition try_read_message ::
  "decoders \<Rightarrow> protocol_handler \<Rightarrow> read_buffer \<Rightarrow> (protocol_error + message option) \<times> read_buffer" where
  "try_read_message lib h st =
     (if length (buffer st) < HEADER_SIZE then (Inr None, st)
      else
        (let size = (case expected_message_size st of
                       None \<Rightarrow> unpack_header (take HEADER_SIZE (buffer st))
                     | Some n \<Rightarrow> n);
             fresh = (expected_message_size st = None)
         in if fresh \<and> size > MAX_MESSAGE_SIZE
              then (Inl (MessageSizeExceedsLimit size), clear_buffer st)
            else if fresh \<and> size = 0
              then (Inl ZeroLengthMessage, clear_buffer st)
            else
              (let st1 = st\<lparr>expected_message_size := Some size\<rparr>;
                   total_size = HEADER_SIZE + size
               in if length (buffer st1) < total_size then (Inr None, st1)
                  else
                    (let message_data = take size (drop HEADER_SIZE (buffer st1));
                         st2 = st1\<lparr>buffer := drop total_size (buffer st1),
                                   expected_message_size := None\<rparr>
                     in case read_payload lib h message_data of
                          Inl e \<Rightarrow> (Inl e, st2)
                        | Inr msg \<Rightarrow> (Inr (Some msg), st2)))))"

text \<open>
  A reader that is fed chunks in order and tries to read after each: the messages it
  returned, the exception that ended it, if any, and the buffer at the end.
\<close>

fun feed_chunks ::
  "decoders \<Rightarrow> protocol_handler \<Rightarrow> read_buffer \<Rightarrow> byte list list
     \<Rightarrow> message list \<times> protocol_error option \<times> read_buffer" where
  "feed_chunks lib h st [] = ([], None, st)"
| "feed_chunks lib h st (chunk # chunks) =
     (case feed_data st chunk of
        Inl e \<Rightarrow> ([], Some e, st)
      | Inr st1 \<Rightarrow>
          (case try_read_message lib h st1 of
             (Inl e, st2) \<Rightarrow> ([], Some e, st2)
           | (Inr None, st2) \<Rightarrow> feed_chunks lib h st2 chunks
           | (Inr (Some msg), st2) \<Rightarrow>
               (case feed_chunks lib h st2 chunks of
                  (msgs, e, st3) \<Rightarrow> (msg # msgs, e, st3))))"

text \<open>
  A reader in the middle of a frame with payload size \<open>n\<close>: its buffer is \<open>pre\<close>, and
  the size it remembers, if any, is \<open>n\<close>, read from a complete header and checked.
\<close>

definition reading :: "nat \<Rightarrow> byte list \<Rightarrow> read_buffer \<Rightarrow> bool" where
  "reading n pre st \<longleftrightarrow>
     buffer st = pre
     \<and> (expected_message_size st = None
          \<or> (HEADER_SIZE \<le> length pre \<and> expected_message_size st = Some n \<and> 0 < n))"

text \<open>What reading one whole frame with the given payload gives.\<close>

definition frame_outcome ::
  "decoders \<Rightarrow> protocol_handler \<Rightarrow> byte list \<Rightarrow> message list \<times> protocol_error option \<times> read_buffer" where
  "frame_outcome lib h payload =
     (if length payload = 0 then ([], Some ZeroLengthMessage, empty_buffer)
      else case read_payload lib h payload of
             Inl e \<Rightarrow> ([], Some e, empty_buffer)
           | Inr msg \<Rightarrow> ([msg], None, empty_buffer))"

section \<open>Protocol: the JSON encoder\<close>

text \<open>
  \<^verbatim>\<open>json.dumps\<close> with its default separators and \<^verbatim>\<open>ensure_ascii\<close>, on the values of
  type \<open>jval\<close>; a character stands for the code point of its number. Every character
  outside the printable ASCII range is escaped, so the UTF-8 encoding of the result has
  one byte per character.
\<close>

definition hex_digit :: "nat \<Rightarrow> char" where
  "hex_digit n = ''0123456789abcdef'' ! (n mod 16)"

definition escape_char :: "char \<Rightarrow> string" where
  "escape_char c =
     (if c = CHR 0x22 then [CHR 0x5C, CHR 0x22]
      else if c = CHR 0x5C then [CHR 0x5C, CHR 0x5C]
      else if c = CHR 0x0A then [CHR 0x5C, CHR ''n'']
      else if c = CHR 0x0D then [CHR 0x5C, CHR ''r'']
      else if c = CHR 0x09 then [CHR 0x5C, CHR ''t'']
      else if c = CHR 0x08 then [CHR 0x5C, CHR ''b'']
      else if c = CHR 0x0C then [CHR 0x5C, CHR ''f'']
      else if (of_char c :: nat) < 32 \<or> (of_char c :: nat) > 126
        then [CHR 0x5C, CHR ''u'', CHR ''0'', CHR ''0'',
              hex_digit (of_char c div 16), hex_digit (of_char c mod 16)]
      else [c])"

definition dumps_string :: "string \<Rightarrow> string" where
  "dumps_string s = [CHR 0x22] @ concat (map escape_char s) @ [CHR 0x22]"

function dumps_nat :: "nat \<Rightarrow> string" where
  "dumps_nat n =
     (if n < 10 then [''0123456789'' ! n] else dumps_nat (n div 10) @ [''0123456789'' ! (n mod 10)])"
  by pat_completeness auto
termination
  by (relation "measure (\<lambda>n. n)") simp_all

definition dumps_int :: "int \<Rightarrow> string" where
  "dumps_int i = (if i < 0 then CHR ''-'' # dumps_nat (nat (- i)) else dumps_nat (nat i))"

text \<open>\<^verbatim>\<open>sep.join(parts)\<close>\<close>

fun join :: "string \<Rightarrow> string list \<Rightarrow> string" where
  "join sep [] = []"
| "join sep [x] = x"
| "join sep (x # y # ys) = x @ sep @ join sep (y # ys)"

fun dumps :: "jval \<Rightarrow> string" where
  "dumps JNull = ''null''"
| "dumps (JBool b) = (if b then ''true'' else ''false'')"
| "dumps (JInt i) = dumps_int i"
| "dumps (JStr s) = dumps_string s"
| "dumps (JList vs) = ''['' @ join '', '' (map dumps vs) @ '']''"
| "dumps (JTuple vs) = ''['' @ join '', '' (map dumps vs) @ '']''"
| "dumps (JDict items) =
     ''{'' @ join '', '' (map (\<lambda>item. dumps_string (fst item) @ '': '' @ dumps (snd item)) items) @ ''}''"

definition encode_ascii :: "string \<Rightarrow> byte list" where
  "encode_ascii s = map (\<lambda>c. of_nat (of_char c)) s"

text \<open>
  The encoders of an installation without msgpack, where \<^verbatim>\<open>use_msgpack\<close> is always
  false: \<open>json_dumps\<close> is the encoder above, which raises for no value of type \<open>jval\<close>.
\<close>

definition json_only :: encoders where
  "json_only =
     \<lparr>msgpack_packb = (\<lambda>v. TypeOrValueError), json_dumps = (\<lambda>v. Value (encode_ascii (dumps v)))\<rparr>"

text \<open>
  Decoders that invert \<open>json_only\<close> on the values of a given list and raise on every
  other input.
\<close>

definition json_table :: "jval list \<Rightarrow> decoders" where
  "json_table vs =
     \<lparr>msgpack_unpackb = (\<lambda>bs. TypeOrValueError),
      json_loads = (\<lambda>bs. case find (\<lambda>v. encode_ascii (dumps v) = bs) vs of
                            None \<Rightarrow> TypeOrValueError
                          | Some v \<Rightarrow> Value v)\<rparr>"

text \<open>A \<^verbatim>\<open>ping\<close> message that carries a string of \<open>n\<close> characters.\<close>

definition padded_ping :: "nat \<Rightarrow> message" where
  "padded_ping n =
     [(''type'', JStr ''ping''), (''id'', JStr ''1''),
      (''data'', JDict [(''pad'', JStr (replicate n (CHR ''x'')))])]"

text \<open>A \<^verbatim>\<open>ping\<close> message, and a handler that uses JSON and validates.\<close>

definition ping_message :: message where
  "ping_message = [(''type'', JStr ''ping''), (''id'', JStr ''msg_001'')]"

definition json_handler :: protocol_handler where
  "json_handler = \<lparr>use_msgpack = False, validate_schema = True\<rparr>"

section \<open>Properties of the rate limiter\<close>

lemma list_max_ge: "x \<in> set xs \<Longrightarrow> x \<le> list_max xs"
  by (induction xs rule: list_max.induct) auto

lemma window_max: "list_max (map (\<lambda>(_, l). snd l) limits) = 900"
  by (simp add: limits_def)

lemma map_of_filter_keep:
  "map_of xs k = Some v \<Longrightarrow> P (k, v) \<Longrightarrow> map_of (filter P xs) k = Some v"
  by (induction xs) (auto split: if_splits)

lemma cleanup_keeps_recent:
  assumes "map_of h key = Some reqs" and "now \<in> set reqs"
  shows "map_of (cleanup_old_clients now h) key = Some reqs"
proof -
  have "now \<le> list_max reqs" using assms(2) by (rule list_max_ge)
  moreover have "reqs \<noteq> []" using assms(2) by auto
  ultimately show ?thesis
    using assms(1) unfolding cleanup_old_clients_def window_max Let_def
    by (intro map_of_filter_keep) auto
qed

lemma limits_normal: "limits_get ''normal'' = (30, 60)"
  by (simp add: limits_get_def limits_def)


lemma check_accepts:
  assumes unlocked: "map_of (lockouts rl) c = None"
    and room: "length (filter (\<lambda>t. t > now - 60) (history_of rl (history_key c ''normal''))) < 30"
  shows "\<exists>rl'. check_rate_limit rl now c ''normal'' = (Inr True, rl')
           \<and> history_of rl' (history_key c ''normal'')
               = filter (\<lambda>t. t > now - 60) (history_of rl (history_key c ''normal'')) @ [now]
           \<and> map_of (lockouts rl') c = None"
proof -
  let ?key = "history_key c ''normal''"
  let ?kept = "filter (\<lambda>t. t > now - 60) (history_of rl ?key)"
  let ?h2 = "AList.update ?key ?kept (request_history rl)"
  let ?h3 = "AList.update ?key (?kept @ [now]) ?h2"
  let ?h4 = "if length ?h3 > 1000 then cleanup_old_clients now ?h3 else ?h3"
  have h3: "map_of ?h3 ?key = Some (?kept @ [now])"
    by (simp add: update_conv')
  have h4: "map_of ?h4 ?key = Some (?kept @ [now])"
    using h3 by (simp add: cleanup_keeps_recent)
  have "check_rate_limit rl now c ''normal''
        = (Inr True, rl\<lparr>lockouts := AList.delete c (lockouts rl), request_history := ?h4\<rparr>)"
    using unlocked room
    by (simp add: check_rate_limit_def limits_normal history_of_def Let_def)
  moreover have "map_of (AList.delete c (lockouts rl)) c = None"
    by (simp add: delete_conv')
  ultimately show ?thesis using h4 by (simp add: history_of_def)
qed

lemma check_refuses:
  assumes unlocked: "map_of (lockouts rl) c = None"
    and full: "30 \<le> length (filter (\<lambda>t. t > now - 60) (history_of rl (history_key c ''normal'')))"
  shows "\<exists>rl'. check_rate_limit rl now c ''normal'' = (Inr False, rl')
           \<and> history_of rl' (history_key c ''normal'')
               = filter (\<lambda>t. t > now - 60) (history_of rl (history_key c ''normal''))
           \<and> map_of (lockouts rl') c = None"
  using assms
  by (simp add: check_rate_limit_def limits_normal history_of_def Let_def update_conv' delete_conv')

lemma run_accepts:
  assumes "map_of (lockouts rl) c = None"
    and "length (history_of rl (history_key c ''normal'')) + length ts \<le> 30"
    and "\<forall>t \<in> set (history_of rl (history_key c ''normal'')) \<union> set ts. b \<le> t \<and> t < b + 60"
  shows "\<exists>rl'. check_rate_limit_run rl c ''normal'' ts = (replicate (length ts) (Inr True), rl')
           \<and> history_of rl' (history_key c ''normal'') = history_of rl (history_key c ''normal'') @ ts
           \<and> map_of (lockouts rl') c = None"
  using assms
proof (induction ts arbitrary: rl)
  case Nil
  then show ?case by simp
next
  case (Cons now ts)
  let ?key = "history_key c ''normal''"
  have "now - 60 < t" if "t \<in> set (history_of rl ?key)" for t
  proof -
    have "b \<le> t" and "now < b + 60" using Cons.prems(3) that by auto
    then show ?thesis by linarith
  qed
  then have keep: "filter (\<lambda>t. t > now - 60) (history_of rl ?key) = history_of rl ?key"
    by (simp add: filter_id_conv)
  have room: "length (filter (\<lambda>t. t > now - 60) (history_of rl ?key)) < 30"
    using Cons.prems(2) by (simp add: keep)
  from check_accepts [OF Cons.prems(1) room] obtain rl1 where
    one: "check_rate_limit rl now c ''normal'' = (Inr True, rl1)"
    and h1: "history_of rl1 ?key = history_of rl ?key @ [now]"
    and l1: "map_of (lockouts rl1) c = None"
    by (auto simp: keep)
  have "length (history_of rl1 ?key) + length ts \<le> 30"
    using Cons.prems(2) by (simp add: h1)
  moreover have "\<forall>t \<in> set (history_of rl1 ?key) \<union> set ts. b \<le> t \<and> t < b + 60"
    using Cons.prems(3) by (auto simp: h1)
  ultimately obtain rl2 where
    rest: "check_rate_limit_run rl1 c ''normal'' ts = (replicate (length ts) (Inr True), rl2)"
    and h2: "history_of rl2 ?key = history_of rl1 ?key @ ts"
    and l2: "map_of (lockouts rl2) c = None"
    using Cons.IH [OF l1] by blast
  show ?case using one rest h1 h2 l2 by simp
qed


lemma run_append:
  "check_rate_limit_run rl c op (xs @ ys) =
     (let (rs, rl1) = check_rate_limit_run rl c op xs;
          (rs', rl2) = check_rate_limit_run rl1 c op ys
      in (rs @ rs', rl2))"
  by (induction xs arbitrary: rl) (auto simp: Let_def split: prod.splits)

text \<open>
  Claim C4. A client without lockout and without recorded \<open>normal\<close> requests makes 30
  calls at clock readings \<open>ts\<close> and a 31st at \<open>t31\<close>, all inside one 60-second window
  \<open>[start, start + 60)\<close>: the 30 calls return \<open>True\<close> and the 31st returns \<open>False\<close>.
  A call at a reading \<open>later\<close> that is at least 60 seconds past every recorded timestamp
  returns \<open>True\<close> again.
\<close>

theorem normal_budget_thirty:
  assumes unlocked: "map_of (lockouts rl) client = None"
    and fresh: "map_of (request_history rl) (history_key client ''normal'') = None"
    and thirty: "length ts = 30"
    and window: "\<forall>t \<in> set ts \<union> {t31}. start \<le> t \<and> t < start + 60"
    and elapsed: "\<forall>t \<in> set ts. t + 60 \<le> later"
  shows "fst (check_rate_limit_run rl client ''normal'' (ts @ [t31, later]))
         = replicate 30 (Inr True) @ [Inr False, Inr True]"
proof -
  let ?key = "history_key client ''normal''"
  have h0: "history_of rl ?key = []" using fresh by (simp add: history_of_def)
  obtain rl1 where
    r1: "check_rate_limit_run rl client ''normal'' ts = (replicate 30 (Inr True), rl1)"
    and h1: "history_of rl1 ?key = ts" and l1: "map_of (lockouts rl1) client = None"
    using run_accepts [OF unlocked, of ts start] thirty window by (auto simp: h0)
  have "start \<le> t31" and "t31 < start + 60" using window by auto
  have "t31 - 60 < t" if "t \<in> set ts" for t
  proof -
    have "start \<le> t" and "t31 < start + 60" using window that by auto
    then show ?thesis by linarith
  qed
  then have keep: "filter (\<lambda>t. t > t31 - 60) ts = ts"
    by (simp add: filter_id_conv)
  obtain rl2 where
    r2: "check_rate_limit rl1 t31 client ''normal'' = (Inr False, rl2)"
    and h2: "history_of rl2 ?key = ts" and l2: "map_of (lockouts rl2) client = None"
    using check_refuses [OF l1, of t31] thirty by (auto simp: h1 keep)
  have "\<not> later - 60 < t" if "t \<in> set ts" for t
    using elapsed that by fastforce
  then have drop: "filter (\<lambda>t. t > later - 60) ts = []"
    by (simp add: filter_empty_conv)
  obtain rl3 where
    r3: "check_rate_limit rl2 later client ''normal'' = (Inr True, rl3)"
    using check_accepts [OF l2, of later] by (auto simp: h2 drop)
  show ?thesis
    by (simp add: run_append r1 r2 r3)
qed

theorem normal_budget_thirty_witness:
  "map_of (lockouts new_rate_limiter) ''127.0.0.1:50000'' = None
   \<and> map_of (request_history new_rate_limiter) (history_key ''127.0.0.1:50000'' ''normal'') = None
   \<and> length (map real [0..<30]) = 30
   \<and> fst (check_rate_limit_run new_rate_limiter ''127.0.0.1:50000'' ''normal''
            (map real [0..<30] @ [30, 89]))
       = replicate 30 (Inr True) @ [Inr False, Inr True]"
proof -
  have a: "map_of (lockouts new_rate_limiter) ''127.0.0.1:50000'' = None"
    by (simp add: new_rate_limiter_def)
  have b: "map_of (request_history new_rate_limiter) (history_key ''127.0.0.1:50000'' ''normal'') = None"
    by (simp add: new_rate_limiter_def)
  have c: "length (map real [0..<30]) = 30" by simp
  have d: "\<forall>t \<in> set (map real [0..<30]) \<union> {30}. 0 \<le> t \<and> t < 0 + 60" by auto
  have e: "\<forall>t \<in> set (map real [0..<30]). t + 60 \<le> 89" by auto
  show ?thesis
    using a b c d e normal_budget_thirty [OF a b c d e] by blast
qed

lemma failed_auth_records:
  "failures_of (record_failed_auth rl now c) c
     = filter (\<lambda>t. t > now - 3600) (failures_of rl c) @ [now]"
  by (simp add: record_failed_auth_def failures_of_def Let_def update_conv')

lemma failed_auth_locks:
  assumes "5 \<le> length (filter (\<lambda>t. t > now - 3600) (failures_of rl c)) + 1"
  shows "map_of (lockouts (record_failed_auth rl now c)) c
         = Some (now + real (lockout_duration (length (filter (\<lambda>t. t > now - 3600) (failures_of rl c)) + 1)))"
  using assms
  by (simp add: record_failed_auth_def failures_of_def Let_def update_conv')

lemma failed_run_snoc:
  "record_failed_auth_run rl c (ts @ [t]) = record_failed_auth (record_failed_auth_run rl c ts) t c"
  by (induction ts arbitrary: rl) simp_all

lemma failed_run_records:
  assumes "\<forall>t \<in> set (failures_of rl c) \<union> set ts. b \<le> t \<and> t < b + 3600"
  shows "failures_of (record_failed_auth_run rl c ts) c = failures_of rl c @ ts"
  using assms
proof (induction ts rule: rev_induct)
  case Nil
  then show ?case by simp
next
  case (snoc now ts)
  have IH: "failures_of (record_failed_auth_run rl c ts) c = failures_of rl c @ ts"
    using snoc by simp
  have "now - 3600 < t" if "t \<in> set (failures_of rl c @ ts)" for t
  proof -
    have "b \<le> t" and "now < b + 3600" using snoc.prems that by auto
    then show ?thesis by linarith
  qed
  then have "filter (\<lambda>t. t > now - 3600) (failures_of rl c @ ts) = failures_of rl c @ ts"
    by (simp only: filter_id_conv) blast
  then show ?case
    by (simp add: failed_run_snoc failed_auth_records IH)
qed

lemma locked_out_raises:
  assumes "map_of (lockouts rl) c = Some until" and "t < until"
  shows "check_rate_limit rl t c op = (Inl (ClientLockedOut \<lfloor>until - t\<rfloor>), rl)"
  using assms by (simp add: check_rate_limit_def)

lemma successful_auth_clears:
  "map_of (failed_auth_attempts (record_successful_auth rl c)) c = None
   \<and> map_of (lockouts (record_successful_auth rl c)) c = None"
  by (simp add: record_successful_auth_def delete_conv')

lemma five_failures_lock:
  assumes fresh: "map_of (failed_auth_attempts rl) c = None"
    and five: "5 \<le> length ts"
    and hour: "\<forall>t \<in> set ts. b \<le> t \<and> t < b + 3600"
  shows "map_of (lockouts (record_failed_auth_run rl c ts)) c
         = Some (last ts + real (lockout_duration (length ts)))"
proof -
  obtain ts' now where ts: "ts = ts' @ [now]"
    using five by (cases ts rule: rev_cases) auto
  have f0: "failures_of rl c = []" using fresh by (simp add: failures_of_def)
  have prev: "failures_of (record_failed_auth_run rl c ts') c = ts'"
    using failed_run_records [of rl c ts' b] hour by (simp add: f0 ts)
  have "now - 3600 < t" if "t \<in> set ts'" for t
  proof -
    have "b \<le> t" and "now < b + 3600" using hour that by (auto simp: ts)
    then show ?thesis by linarith
  qed
  then have keep: "filter (\<lambda>t. t > now - 3600) ts' = ts'"
    by (simp only: filter_id_conv) blast
  show ?thesis
    using failed_auth_locks [of now "record_failed_auth_run rl c ts'" c] five
    by (simp add: ts failed_run_snoc prev keep)
qed


text \<open>
  Claim C3. (1) A failed authentication that brings the number of failures of the last
  hour to \<open>n \<ge> 5\<close> installs a lockout until \<open>now + min 3600 (60 * 2 ^ (n - 5))\<close>.
  (2) In particular, for a client without failure record, five or more failures whose
  timestamps lie inside one hour leave a lockout counted from the last of them.
  (3) While a lockout is unexpired, \<open>check_rate_limit\<close> raises for every operation type
  and leaves the limiter as it was. (4) \<open>record_successful_auth\<close> removes the failure
  record and the lockout, and the next \<open>check_rate_limit\<close> does not raise.
\<close>

theorem lockout_lifecycle:
  "(5 \<le> length (filter (\<lambda>t. t > now - 3600) (failures_of rl client)) + 1 \<longrightarrow>
      map_of (lockouts (record_failed_auth rl now client)) client
        = Some (now + real (min 3600
             (60 * 2 ^ (length (filter (\<lambda>t. t > now - 3600) (failures_of rl client)) + 1 - 5)))))
   \<and> (map_of (failed_auth_attempts rl) client = None \<and> 5 \<le> length ts
        \<and> (\<forall>t \<in> set ts. b \<le> t \<and> t < b + 3600) \<longrightarrow>
      map_of (lockouts (record_failed_auth_run rl client ts)) client
        = Some (last ts + real (min 3600 (60 * 2 ^ (length ts - 5)))))
   \<and> (map_of (lockouts rl) client = Some until \<and> t < until \<longrightarrow>
      check_rate_limit rl t client operation_type = (Inl (ClientLockedOut \<lfloor>until - t\<rfloor>), rl))
   \<and> map_of (failed_auth_attempts (record_successful_auth rl client)) client = None
   \<and> map_of (lockouts (record_successful_auth rl client)) client = None
   \<and> \<not> isl (fst (check_rate_limit (record_successful_auth rl client) t client operation_type))"
proof -
  have free: "\<not> isl (fst (check_rate_limit (record_successful_auth rl client) t client operation_type))"
    using successful_auth_clears [of rl client]
    by (simp add: check_rate_limit_def Let_def split: prod.splits)
  show ?thesis
    using failed_auth_locks [of now rl client] five_failures_lock [of rl client ts b]
      locked_out_raises [of rl client until t operation_type]
      successful_auth_clears [of rl client] free
    by (simp add: lockout_duration_def)
qed

theorem lockout_lifecycle_witness:
  "map_of (lockouts (record_failed_auth_run new_rate_limiter ''10.0.0.1:4000'' [0, 1, 2, 3, 4]))
       ''10.0.0.1:4000'' = Some 64
   \<and> map_of (lockouts (record_failed_auth
         (record_failed_auth_run new_rate_limiter ''10.0.0.1:4000'' [0, 1, 2, 3, 4]) 5 ''10.0.0.1:4000''))
       ''10.0.0.1:4000'' = Some 125
   \<and> fst (check_rate_limit (record_failed_auth_run new_rate_limiter ''10.0.0.1:4000'' [0, 1, 2, 3, 4])
         10 ''10.0.0.1:4000'' ''cheap'') = Inl (ClientLockedOut 54)"
proof -
  let ?c = "''10.0.0.1:4000''"
  let ?rl5 = "record_failed_auth_run new_rate_limiter ?c [0, 1, 2, 3, 4]"
  have fresh: "map_of (failed_auth_attempts new_rate_limiter) ?c = None"
    by (simp add: new_rate_limiter_def)
  have hour: "\<forall>t \<in> set [0, 1, 2, 3, 4 :: real]. 0 \<le> t \<and> t < 0 + 3600" by simp
  have locked: "map_of (lockouts ?rl5) ?c = Some 64"
    using lockout_lifecycle [of 0 new_rate_limiter ?c "[0, 1, 2, 3, 4]" 0] fresh hour
    by simp
  have f5: "failures_of ?rl5 ?c = [0, 1, 2, 3, 4]"
    using failed_run_records [of new_rate_limiter ?c "[0, 1, 2, 3, 4]" 0] fresh
    by (simp add: failures_of_def)
  have again: "map_of (lockouts (record_failed_auth ?rl5 5 ?c)) ?c = Some 125"
  proof -
    have pre: "5 \<le> length (filter (\<lambda>t. t > 5 - 3600) (failures_of ?rl5 ?c)) + 1"
      unfolding f5 by simp
    show ?thesis
      using lockout_lifecycle [of 5 ?rl5 ?c, THEN conjunct1, rule_format, OF pre]
      unfolding f5 by simp
  qed
  have raises: "fst (check_rate_limit ?rl5 10 ?c ''cheap'') = Inl (ClientLockedOut 54)"
    using lockout_lifecycle [of _ ?rl5 ?c _ _ 64 10 "''cheap''",
        THEN conjunct2, THEN conjunct2, THEN conjunct1, rule_format] locked
    by simp
  show ?thesis using locked again raises by blast
qed

section \<open>Properties of the operation manager\<close>

lemma map_of_fold_delete:
  "map_of (fold AList.delete ks al) k = (if k \<in> set ks then None else map_of al k)"
  by (induction ks arbitrary: al) (auto simp: delete_conv')

lemma map_of_cancel_all:
  "map_of (map (\<lambda>(rid, ex). (rid, f ex)) al) k = map_option f (map_of al k)"
  by (induction al) auto

lemma settled_step:
  assumes "settled m rid" and "\<not> starts rid ev"
  shows "settled (step m ev) rid"
proof (cases ev)
  case (StartOperation rid' ctype h ps tmo now)
  then have "rid' \<noteq> rid" using assms(2) by simp
  then show ?thesis using assms(1) StartOperation
    by (auto simp: settled_def start_operation_def update_conv' Let_def split: option.splits)
next
  case (GetStatus rid' now)
  then show ?thesis using assms(1)
    by (auto simp: settled_def get_status_def split: option.splits)
next
  case (CancelOperation rid' now)
  then show ?thesis using assms(1)
    by (auto simp: settled_def cancel_operation_def cancel_def update_conv' split: option.splits if_splits)
next
  case (CleanupCompleted now)
  then show ?thesis using assms(1)
    by (auto simp: settled_def cleanup_completed_def map_of_fold_delete Let_def split: option.splits if_splits)
next
  case (CancelAll now)
  then show ?thesis using assms(1)
    by (auto simp: settled_def cancel_all_def map_of_cancel_all cancel_def Let_def split: option.splits if_splits)
next
  case (WorkerBegins rid')
  then show ?thesis using assms(1)
    by (auto simp: settled_def on_worker_def run_begin_def update_conv' split: option.splits if_splits)
next
  case (WorkerReports rid' started now percent message)
  then show ?thesis using assms(1)
    by (auto simp: settled_def on_worker_def report_progress_def update_conv' Let_def split: option.splits if_splits)
next
  case (WorkerEnds rid' outcome now)
  then show ?thesis using assms(1)
    by (auto simp: settled_def on_worker_def run_end_def update_conv' split: option.splits if_splits handler_outcome.splits)
qed

lemma settled_run:
  assumes "settled m rid" and "\<forall>ev \<in> set evs. \<not> starts rid ev"
  shows "settled (run_events m evs) rid"
  using assms unfolding run_events_def
  by (induction evs arbitrary: m) (simp_all add: settled_step)

lemma settled_cancel_refused:
  "settled m rid \<Longrightarrow> cancel_operation m rid now = (False, m)"
  by (auto simp: settled_def cancel_operation_def split: option.splits)


lemma unstarted_ok_ex_simps:
  "unstarted_ok_ex (new_executor rid ctype h ps tmo now)"
  "unstarted_ok_ex (cancel ex now)"
  "unstarted_ok_ex (run_begin ex)"
  "unstarted_ok_ex ex \<Longrightarrow> unstarted_ok_ex (run_end ex outcome now)"
  "unstarted_ok_ex ex \<Longrightarrow> unstarted_ok_ex (snd (report_progress ex started now percent message))"
  by (auto simp: unstarted_ok_ex_def new_executor_def new_result_def cancel_def run_begin_def
      run_end_def report_progress_def Let_def split: handler_outcome.splits)

lemma unstarted_ok_on_worker:
  assumes "unstarted_ok m" and "\<And>ex. unstarted_ok_ex ex \<Longrightarrow> unstarted_ok_ex (f ex)"
  shows "unstarted_ok (on_worker m rid phase f)"
  unfolding unstarted_ok_def
proof
  fix k
  have old: "case map_of (operations m) k of None \<Rightarrow> True | Some ex \<Rightarrow> unstarted_ok_ex ex" for k
    using assms(1) by (simp add: unstarted_ok_def)
  show "case map_of (operations (on_worker m rid phase f)) k of
          None \<Rightarrow> True | Some ex \<Rightarrow> unstarted_ok_ex ex"
    using old [of k] old [of rid] assms(2)
    by (auto simp: on_worker_def update_conv' split: option.splits)
qed

lemma unstarted_ok_step: "unstarted_ok m \<Longrightarrow> unstarted_ok (step m ev)"
proof -
  assume inv: "unstarted_ok m"
  have old: "case map_of (operations m) k of None \<Rightarrow> True | Some ex \<Rightarrow> unstarted_ok_ex ex" for k
    using inv by (simp add: unstarted_ok_def)
  show ?thesis
  proof (cases ev)
    case (StartOperation rid' ctype h ps tmo now)
    show ?thesis unfolding unstarted_ok_def
    proof
      fix k
      show "case map_of (operations (step m ev)) k of None \<Rightarrow> True | Some ex \<Rightarrow> unstarted_ok_ex ex"
        using old [of k] StartOperation
        by (auto simp: start_operation_def update_conv' Let_def unstarted_ok_ex_simps
            split: option.splits)
    qed
  next
    case (GetStatus rid' now)
    then show ?thesis using inv by (simp add: get_status_def split: option.splits)
  next
    case (CancelOperation rid' now)
    show ?thesis unfolding unstarted_ok_def
    proof
      fix k
      show "case map_of (operations (step m ev)) k of None \<Rightarrow> True | Some ex \<Rightarrow> unstarted_ok_ex ex"
        using old [of k] CancelOperation
        by (auto simp: cancel_operation_def update_conv' unstarted_ok_ex_simps
            split: option.splits)
    qed
  next
    case (CleanupCompleted now)
    show ?thesis unfolding unstarted_ok_def
    proof
      fix k
      show "case map_of (operations (step m ev)) k of None \<Rightarrow> True | Some ex \<Rightarrow> unstarted_ok_ex ex"
        using old [of k] CleanupCompleted
        by (auto simp: cleanup_completed_def map_of_fold_delete Let_def split: option.splits)
    qed
  next
    case (CancelAll now)
    show ?thesis unfolding unstarted_ok_def
    proof
      fix k
      show "case map_of (operations (step m ev)) k of None \<Rightarrow> True | Some ex \<Rightarrow> unstarted_ok_ex ex"
        using old [of k] CancelAll
        by (auto simp: cancel_all_def map_of_cancel_all Let_def unstarted_ok_ex_simps
            split: option.splits)
    qed
  next
    case (WorkerBegins rid')
    then show ?thesis using inv
      by (simp add: unstarted_ok_on_worker unstarted_ok_ex_simps)
  next
    case (WorkerReports rid' started now percent message)
    then show ?thesis using inv
      by (simp add: unstarted_ok_on_worker unstarted_ok_ex_simps)
  next
    case (WorkerEnds rid' outcome now)
    then show ?thesis using inv
      by (simp add: unstarted_ok_on_worker unstarted_ok_ex_simps)
  qed
qed

lemma unstarted_ok_run: "unstarted_ok m \<Longrightarrow> unstarted_ok (run_events m evs)"
  unfolding run_events_def
  by (induction evs arbitrary: m) (simp_all add: unstarted_ok_step)

lemma unstarted_ok_new: "unstarted_ok (new_manager cap retention)"
  by (simp add: unstarted_ok_def new_manager_def)

lemma cancel_iff:
  "fst (cancel_operation m rid now)
     \<longleftrightarrow> (\<exists>ex. map_of (operations m) rid = Some ex \<and> status (result_obj ex) \<in> {PENDING, RUNNING})"
  by (auto simp: cancel_operation_def split: option.splits)

lemma cancel_running:
  assumes "map_of (operations m) rid = Some ex" and "status (result_obj ex) = RUNNING"
    and "worker ex \<noteq> Scheduled"
  shows "fst (cancel_operation m rid now)"
    and "map_of (operations (snd (cancel_operation m rid now))) rid = Some (cancel ex now)"
    and "settled (snd (cancel_operation m rid now)) rid"
  using assms
  by (auto simp: cancel_operation_def settled_def cancel_def update_conv')

text \<open>
  Claim C7. \<open>cancel_operation\<close> returns \<open>True\<close> exactly when the id is in the table with
  status pending or running. For a manager reached from a new one by any history of
  events, if the operation is running then the cancel returns \<open>True\<close> and leaves it
  cancelled, and after any further events that do not start the id anew (calls of the
  manager, steps of any worker, the cleanup sweep) a cancel of that id returns \<open>False\<close>.
\<close>

theorem cancel_true_exactly_once:
  "(fst (cancel_operation m rid now)
      \<longleftrightarrow> (\<exists>ex. map_of (operations m) rid = Some ex \<and> status (result_obj ex) \<in> {PENDING, RUNNING}))
   \<and> (m = run_events (new_manager cap retention) history
        \<and> map_of (operations m) rid = Some ex \<and> status (result_obj ex) = RUNNING \<longrightarrow>
      fst (cancel_operation m rid now)
      \<and> map_option (\<lambda>ex'. status (result_obj ex'))
           (map_of (operations (snd (cancel_operation m rid now))) rid) = Some CANCELLED
      \<and> (\<forall>evs later. (\<forall>ev \<in> set evs. \<not> starts rid ev) \<longrightarrow>
            \<not> fst (cancel_operation (run_events (snd (cancel_operation m rid now)) evs) rid later)))"
proof -
  have second: "fst (cancel_operation m rid now)
      \<and> map_option (\<lambda>ex'. status (result_obj ex'))
           (map_of (operations (snd (cancel_operation m rid now))) rid) = Some CANCELLED
      \<and> (\<forall>evs later. (\<forall>ev \<in> set evs. \<not> starts rid ev) \<longrightarrow>
            \<not> fst (cancel_operation (run_events (snd (cancel_operation m rid now)) evs) rid later))"
    if reach: "m = run_events (new_manager cap retention) history"
      and present: "map_of (operations m) rid = Some ex"
      and running: "status (result_obj ex) = RUNNING"
  proof -
    have "unstarted_ok m"
      unfolding reach by (rule unstarted_ok_run [OF unstarted_ok_new])
    then have "unstarted_ok_ex ex"
      using present unfolding unstarted_ok_def by (metis option.simps(5))
    then have begun: "worker ex \<noteq> Scheduled"
      using running by (auto simp: unstarted_ok_ex_def)
    note c = cancel_running [OF present running begun, of now]
    have "\<not> fst (cancel_operation (run_events (snd (cancel_operation m rid now)) evs) rid later)"
      if "\<forall>ev \<in> set evs. \<not> starts rid ev" for evs later
      using settled_cancel_refused [OF settled_run [OF c(3) that], of later] by simp
    then show ?thesis using c(1,2) by (simp add: cancel_def)
  qed
  show ?thesis using cancel_iff [of m rid now] second by blast
qed


theorem cancel_true_exactly_once_witness:
  "fst (cancel_operation
         (run_events (new_manager 10 3600 :: (unit, unit, nat) async_operation_manager)
            [StartOperation ''op1'' ''load_layer'' () () None 0, WorkerBegins ''op1''])
         ''op1'' 5)
   \<and> \<not> fst (cancel_operation
         (run_events
            (snd (cancel_operation
               (run_events (new_manager 10 3600 :: (unit, unit, nat) async_operation_manager)
                  [StartOperation ''op1'' ''load_layer'' () () None 0, WorkerBegins ''op1''])
               ''op1'' 5))
            [WorkerEnds ''op1'' (RaisedException ''Operation cancelled'') 6])
         ''op1'' 7)"
proof -
  let ?m = "run_events (new_manager 10 3600 :: (unit, unit, nat) async_operation_manager)
              [StartOperation ''op1'' ''load_layer'' () () None 0, WorkerBegins ''op1'']"
  let ?ex = "run_begin (new_executor ''op1'' ''load_layer'' () () None 0) :: (unit, unit, nat) async_command_executor"
  have present: "map_of (operations ?m) ''op1'' = Some ?ex"
    by (simp add: run_events_def start_operation_def new_manager_def active_count_def
        on_worker_def new_executor_def)
  have running: "status (result_obj ?ex) = RUNNING"
    by (simp add: run_begin_def)
  have quiet: "\<forall>ev \<in> set [WorkerEnds ''op1'' (RaisedException ''Operation cancelled'') 6
                 :: (unit, unit, nat) event]. \<not> starts ''op1'' ev"
    by simp
  note t = cancel_true_exactly_once [of ?m "''op1''" 5 10 3600 _ ?ex, THEN conjunct2, rule_format,
      OF conjI [OF refl conjI [OF present running]]]
  from t have first: "fst (cancel_operation ?m ''op1'' 5)" by blast
  from t quiet have
    "\<not> fst (cancel_operation (run_events (snd (cancel_operation ?m ''op1'' 5))
         [WorkerEnds ''op1'' (RaisedException ''Operation cancelled'') 6]) ''op1'' 7)"
    by blast
  with first show ?thesis by blast
qed

lemma start_fresh:
  assumes "map_of (operations m) rid = None" and "active_count m < max_concurrent m"
  shows "start_operation m rid ctype h ps tmo now
         = (Inr (ResultOf rid),
            m\<lparr>operations := AList.update rid (new_executor rid ctype h ps tmo now) (operations m)\<rparr>)"
  using assms by (simp add: start_operation_def)

lemma not_begun_step:
  assumes "not_begun m rid" and "ev \<noteq> WorkerBegins rid"
  shows "not_begun (step m ev) rid"
proof (cases ev)
  case (StartOperation rid' ctype h ps tmo now)
  then show ?thesis using assms(1)
    by (auto simp: not_begun_def start_operation_def update_conv' Let_def new_executor_def
        split: option.splits)
next
  case (GetStatus rid' now)
  then show ?thesis using assms(1)
    by (auto simp: not_begun_def get_status_def split: option.splits)
next
  case (CancelOperation rid' now)
  then show ?thesis using assms(1)
    by (auto simp: not_begun_def cancel_operation_def cancel_def update_conv'
        split: option.splits if_splits)
next
  case (CleanupCompleted now)
  then show ?thesis using assms(1)
    by (auto simp: not_begun_def cleanup_completed_def map_of_fold_delete Let_def
        split: option.splits if_splits)
next
  case (CancelAll now)
  then show ?thesis using assms(1)
    by (auto simp: not_begun_def cancel_all_def map_of_cancel_all cancel_def Let_def
        split: option.splits if_splits)
next
  case (WorkerBegins rid')
  then have "rid' \<noteq> rid" using assms(2) by simp
  then show ?thesis using assms(1) WorkerBegins
    by (auto simp: not_begun_def on_worker_def update_conv' split: option.splits if_splits)
next
  case (WorkerReports rid' started now percent message)
  then show ?thesis using assms(1)
    by (auto simp: not_begun_def on_worker_def update_conv' split: option.splits if_splits)
next
  case (WorkerEnds rid' outcome now)
  then show ?thesis using assms(1)
    by (auto simp: not_begun_def on_worker_def update_conv' split: option.splits if_splits)
qed

lemma not_begun_run:
  assumes "not_begun m rid" and "\<forall>ev \<in> set evs. ev \<noteq> WorkerBegins rid"
  shows "not_begun (run_events m evs) rid"
  using assms unfolding run_events_def
  by (induction evs arbitrary: m) (simp_all add: not_begun_step)

lemma first_step_sets_running:
  assumes "not_begun m rid" and "map_of (operations m) rid \<noteq> None"
  shows "map_option worker (map_of (operations m) rid) = Some Scheduled"
    and "map_option status (read_result (step m (WorkerBegins rid)) (ResultOf rid)) = Some RUNNING"
  using assms
  by (auto simp: not_begun_def on_worker_def run_begin_def update_conv' split: option.splits)

text \<open>
  Claim C8, as amended. \<open>start_operation\<close> checks the id first: an id that is in the
  table is refused with \<open>OperationExists\<close>, whatever the number of running operations.
  For an id not in the table it is refused with \<open>TooManyOperations\<close> whenever the number
  of operations with status running has reached \<open>max_concurrent\<close>. Otherwise it stores
  the operation with status pending, starts its thread and returns the reference to
  its result object, which reads pending as long as the thread has not run. Whatever
  happens before the thread runs (calls of the manager other than a new start of the
  id, steps of other threads), as long as the operation is in the table its thread is
  still waiting to run, and the first step of that thread sets the status that the
  returned reference reads to running.
\<close>

theorem start_operation_cases:
  "(map_of (operations m) rid \<noteq> None \<longrightarrow>
      start_operation m rid ctype h ps tmo now = (Inl (OperationExists rid), m))
   \<and> (map_of (operations m) rid = None \<and> max_concurrent m \<le> active_count m \<longrightarrow>
      start_operation m rid ctype h ps tmo now
        = (Inl (TooManyOperations (active_count m) (max_concurrent m)), m))
   \<and> (map_of (operations m) rid = None \<and> active_count m < max_concurrent m \<longrightarrow>
      start_operation m rid ctype h ps tmo now
        = (Inr (ResultOf rid),
           m\<lparr>operations := AList.update rid (new_executor rid ctype h ps tmo now) (operations m)\<rparr>)
      \<and> map_option status
           (read_result (snd (start_operation m rid ctype h ps tmo now)) (ResultOf rid))
          = Some PENDING
      \<and> (\<forall>evs. (\<forall>ev \<in> set evs. ev \<noteq> WorkerBegins rid \<and> \<not> starts rid ev)
            \<and> map_of (operations (run_events (snd (start_operation m rid ctype h ps tmo now)) evs)) rid
                \<noteq> None \<longrightarrow>
            map_option worker
               (map_of (operations (run_events (snd (start_operation m rid ctype h ps tmo now)) evs)) rid)
              = Some Scheduled
            \<and> map_option status
                 (read_result
                    (step (run_events (snd (start_operation m rid ctype h ps tmo now)) evs)
                       (WorkerBegins rid))
                    (ResultOf rid))
                = Some RUNNING))"
  for m :: "('h, 'p, 'r) async_operation_manager"
proof (intro conjI impI allI)
  assume "map_of (operations m) rid \<noteq> None"
  then show "start_operation m rid ctype h ps tmo now = (Inl (OperationExists rid), m)"
    by (simp add: start_operation_def)
next
  assume "map_of (operations m) rid = None \<and> max_concurrent m \<le> active_count m"
  then show "start_operation m rid ctype h ps tmo now
        = (Inl (TooManyOperations (active_count m) (max_concurrent m)), m)"
    by (simp add: start_operation_def)
next
  assume "map_of (operations m) rid = None \<and> active_count m < max_concurrent m"
  then show "start_operation m rid ctype h ps tmo now
        = (Inr (ResultOf rid),
           m\<lparr>operations := AList.update rid (new_executor rid ctype h ps tmo now) (operations m)\<rparr>)"
    by (simp add: start_fresh)
next
  assume "map_of (operations m) rid = None \<and> active_count m < max_concurrent m"
  then show "map_option status
           (read_result (snd (start_operation m rid ctype h ps tmo now)) (ResultOf rid))
          = Some PENDING"
    by (simp add: start_fresh update_conv' new_executor_def new_result_def)
next
  fix evs :: "('h, 'p, 'r) event list"
  let ?m = "snd (start_operation m rid ctype h ps tmo now)"
  assume fresh: "map_of (operations m) rid = None \<and> active_count m < max_concurrent m"
  assume quiet: "(\<forall>ev \<in> set evs. ev \<noteq> WorkerBegins rid \<and> \<not> starts rid ev)
            \<and> map_of (operations (run_events ?m evs)) rid \<noteq> None"
  have "not_begun ?m rid"
    using fresh by (simp add: start_fresh not_begun_def update_conv' new_executor_def)
  then have waiting: "not_begun (run_events ?m evs) rid"
    using quiet by (simp add: not_begun_run)
  show "map_option worker (map_of (operations (run_events ?m evs)) rid) = Some Scheduled"
    using first_step_sets_running(1) [OF waiting] quiet by simp
  show "map_option status
          (read_result (step (run_events ?m evs) (WorkerBegins rid)) (ResultOf rid))
        = Some RUNNING"
    using first_step_sets_running(2) [OF waiting] quiet by simp
qed

text \<open>
  Claim C8 as stated fails: with the cap reached by one running operation, a second
  \<open>start_operation\<close> under the same id is refused with \<open>OperationExists\<close>, not with the
  capacity error.
\<close>

theorem capacity_error_counterexample:
  "max_concurrent (run_events (new_manager 1 3600 :: (unit, unit, nat) async_operation_manager)
       [StartOperation ''a'' ''load_layer'' () () None 0, WorkerBegins ''a''])
     \<le> active_count (run_events (new_manager 1 3600 :: (unit, unit, nat) async_operation_manager)
       [StartOperation ''a'' ''load_layer'' () () None 0, WorkerBegins ''a''])
   \<and> fst (start_operation
        (run_events (new_manager 1 3600 :: (unit, unit, nat) async_operation_manager)
           [StartOperation ''a'' ''load_layer'' () () None 0, WorkerBegins ''a''])
        ''a'' ''load_layer'' () () None 1)
      = Inl (OperationExists ''a'')"
  by (simp add: run_events_def start_operation_def new_manager_def active_count_def
      on_worker_def new_executor_def run_begin_def new_result_def)

lemma two_running:
  "2 \<le> cap \<Longrightarrow>
   run_events (new_manager cap 3600 :: (unit, unit, nat) async_operation_manager)
       [StartOperation ''a'' ''load_layer'' () () None 0, WorkerBegins ''a'',
        StartOperation ''b'' ''load_layer'' () () None 1, WorkerBegins ''b'']
     = \<lparr>max_concurrent = cap, cleanup_after = 3600,
        operations = [(''a'', run_begin (new_executor ''a'' ''load_layer'' () () None 0)),
                      (''b'', run_begin (new_executor ''b'' ''load_layer'' () () None 1))]\<rparr>"
  by (simp add: run_events_def start_operation_def new_manager_def active_count_def
      on_worker_def run_begin_def new_executor_def new_result_def)

theorem start_operation_cases_witness:
  "start_operation
       (run_events (new_manager 2 3600 :: (unit, unit, nat) async_operation_manager)
          [StartOperation ''a'' ''load_layer'' () () None 0, WorkerBegins ''a'',
           StartOperation ''b'' ''load_layer'' () () None 1, WorkerBegins ''b''])
       ''c'' ''load_layer'' () () None 2
     = (Inl (TooManyOperations 2 2),
        run_events (new_manager 2 3600)
          [StartOperation ''a'' ''load_layer'' () () None 0, WorkerBegins ''a'',
           StartOperation ''b'' ''load_layer'' () () None 1, WorkerBegins ''b''])
   \<and> fst (start_operation
       (run_events (new_manager 2 3600 :: (unit, unit, nat) async_operation_manager)
          [StartOperation ''a'' ''load_layer'' () () None 0, WorkerBegins ''a'',
           StartOperation ''b'' ''load_layer'' () () None 1, WorkerBegins ''b''])
       ''b'' ''load_layer'' () () None 2)
     = Inl (OperationExists ''b'')
   \<and> fst (start_operation
       (run_events (new_manager 3 3600 :: (unit, unit, nat) async_operation_manager)
          [StartOperation ''a'' ''load_layer'' () () None 0, WorkerBegins ''a'',
           StartOperation ''b'' ''load_layer'' () () None 1, WorkerBegins ''b''])
       ''c'' ''load_layer'' () () None 2)
     = Inr (ResultOf ''c'')
   \<and> map_option status
       (read_result
          (snd (start_operation
             (run_events (new_manager 3 3600 :: (unit, unit, nat) async_operation_manager)
                [StartOperation ''a'' ''load_layer'' () () None 0, WorkerBegins ''a'',
                 StartOperation ''b'' ''load_layer'' () () None 1, WorkerBegins ''b''])
             ''c'' ''load_layer'' () () None 2))
          (ResultOf ''c''))
     = Some PENDING
   \<and> map_option status
       (read_result
          (step
             (run_events
                (snd (start_operation
                   (run_events (new_manager 3 3600 :: (unit, unit, nat) async_operation_manager)
                      [StartOperation ''a'' ''load_layer'' () () None 0, WorkerBegins ''a'',
                       StartOperation ''b'' ''load_layer'' () () None 1, WorkerBegins ''b''])
                   ''c'' ''load_layer'' () () None 2))
                [GetStatus ''c'' 3, WorkerEnds ''a'' (Returned 7) 4, CancelOperation ''c'' 5])
             (WorkerBegins ''c''))
          (ResultOf ''c''))
     = Some RUNNING"
proof -
  let ?evs = "[StartOperation ''a'' ''load_layer'' () () None 0, WorkerBegins ''a'',
               StartOperation ''b'' ''load_layer'' () () None 1, WorkerBegins ''b'']
              :: (unit, unit, nat) event list"
  let ?full = "run_events (new_manager 2 3600 :: (unit, unit, nat) async_operation_manager) ?evs"
  let ?room = "run_events (new_manager 3 3600 :: (unit, unit, nat) async_operation_manager) ?evs"
  let ?later = "[GetStatus ''c'' 3, WorkerEnds ''a'' (Returned 7) 4, CancelOperation ''c'' 5]
                :: (unit, unit, nat) event list"
  let ?started = "snd (start_operation ?room ''c'' ''load_layer'' () () None 2)"
  have full: "?full = \<lparr>max_concurrent = 2, cleanup_after = 3600,
        operations = [(''a'', run_begin (new_executor ''a'' ''load_layer'' () () None 0)),
                      (''b'', run_begin (new_executor ''b'' ''load_layer'' () () None 1))]\<rparr>"
    and room_is: "?room = \<lparr>max_concurrent = 3, cleanup_after = 3600,
        operations = [(''a'', run_begin (new_executor ''a'' ''load_layer'' () () None 0)),
                      (''b'', run_begin (new_executor ''b'' ''load_layer'' () () None 1))]\<rparr>"
    by (simp_all add: two_running)
  have absent_full: "map_of (operations ?full) ''c'' = None"
    and present_full: "map_of (operations ?full) ''b'' \<noteq> None"
    and absent_room: "map_of (operations ?room) ''c'' = None"
    by (simp_all add: full room_is)
  have count_full: "active_count ?full = 2" and count_room: "active_count ?room = 2"
    by (simp_all add: full room_is active_count_def run_begin_def)
  have cap_full: "max_concurrent ?full = 2" and cap_room: "max_concurrent ?room = 3"
    by (simp_all add: full room_is)
  have reached: "max_concurrent ?full \<le> active_count ?full"
    and room: "active_count ?room < max_concurrent ?room"
    by (simp_all add: count_full count_room cap_full cap_room)
  have a: "start_operation ?full ''c'' ''load_layer'' () () None 2
           = (Inl (TooManyOperations 2 2), ?full)"
    using start_operation_cases [of ?full "''c''" "''load_layer''" "()" "()" None 2,
        THEN conjunct2, THEN conjunct1, rule_format, OF conjI [OF absent_full reached]]
    unfolding count_full cap_full .
  have b: "fst (start_operation ?full ''b'' ''load_layer'' () () None 2) = Inl (OperationExists ''b'')"
    using start_operation_cases [of ?full "''b''" "''load_layer''" "()" "()" None 2,
        THEN conjunct1, rule_format, OF present_full]
    by simp
  note c = start_operation_cases [of ?room "''c''" "''load_layer''" "()" "()" None 2,
      THEN conjunct2, THEN conjunct2, rule_format, OF conjI [OF absent_room room]]
  from c have c1: "fst (start_operation ?room ''c'' ''load_layer'' () () None 2) = Inr (ResultOf ''c'')"
    by simp
  from c have c2: "map_option status (read_result ?started (ResultOf ''c'')) = Some PENDING"
    by blast
  have quiet: "\<forall>ev \<in> set ?later. ev \<noteq> WorkerBegins ''c'' \<and> \<not> starts ''c'' ev"
    by simp
  have kept: "map_of (operations (run_events ?started ?later)) ''c'' \<noteq> None"
    unfolding room_is
    by (simp add: start_operation_def active_count_def run_events_def get_status_def
        cancel_operation_def on_worker_def update_conv' new_executor_def new_result_def
        run_begin_def)
  from c have "(\<forall>ev \<in> set ?later. ev \<noteq> WorkerBegins ''c'' \<and> \<not> starts ''c'' ev)
        \<and> map_of (operations (run_events ?started ?later)) ''c'' \<noteq> None \<longrightarrow>
      map_option status
        (read_result (step (run_events ?started ?later) (WorkerBegins ''c'')) (ResultOf ''c''))
      = Some RUNNING"
    by blast
  with quiet kept have c3: "map_option status
        (read_result (step (run_events ?started ?later) (WorkerBegins ''c'')) (ResultOf ''c''))
      = Some RUNNING"
    by blast
  show ?thesis using a b c1 c2 c3 by blast
qed

text \<open>
  Claim C10. For an id that is not in the table, \<open>get_status\<close> returns \<open>None\<close> and
  \<open>cancel_operation\<close> returns \<open>False\<close>, and both leave the manager as it was; neither has
  a branch that raises. An operation that ended longer ago than \<open>cleanup_after\<close> is
  removed by \<open>cleanup_completed\<close>, after which the same holds for its id.
\<close>

theorem absent_id_is_noop:
  "(map_of (operations m) rid = None \<longrightarrow>
      get_status m rid now = (None, m) \<and> cancel_operation m rid now = (False, m))
   \<and> (map_of (operations m) rid = Some ex \<and> truthy_time (end_time (result_obj ex)) = Some ended
        \<and> now - ended > cleanup_after m \<longrightarrow>
      map_of (operations (snd (cleanup_completed m now))) rid = None
      \<and> get_status (snd (cleanup_completed m now)) rid later = (None, snd (cleanup_completed m now))
      \<and> cancel_operation (snd (cleanup_completed m now)) rid later
          = (False, snd (cleanup_completed m now)))"
proof -
  have absent: "map_of (operations m) rid = None \<longrightarrow>
      get_status m rid now = (None, m) \<and> cancel_operation m rid now = (False, m)"
    by (simp add: get_status_def cancel_operation_def)
  have after: "get_status (snd (cleanup_completed m now)) rid later = (None, snd (cleanup_completed m now))
      \<and> cancel_operation (snd (cleanup_completed m now)) rid later
          = (False, snd (cleanup_completed m now))"
    if "map_of (operations (snd (cleanup_completed m now))) rid = None"
    using that by (simp add: get_status_def cancel_operation_def)
  have removed: "map_of (operations (snd (cleanup_completed m now))) rid = None"
    if "map_of (operations m) rid = Some ex"
      and "truthy_time (end_time (result_obj ex)) = Some ended"
      and "now - ended > cleanup_after m"
  proof -
    have "(rid, ex) \<in> set (operations m)" using that(1) by (rule map_of_SomeD)
    then have "rid \<in> set (map fst (filter (\<lambda>(rid, executor).
                   case truthy_time (end_time (result_obj executor)) of
                     None \<Rightarrow> False
                   | Some e \<Rightarrow> now - e > cleanup_after m) (operations m)))"
      using that(2,3) by force
    then show ?thesis
      by (simp add: cleanup_completed_def Let_def map_of_fold_delete)
  qed
  show ?thesis
  proof (intro conjI impI)
    assume "map_of (operations m) rid = None"
    then show "get_status m rid now = (None, m)" and "cancel_operation m rid now = (False, m)"
      using absent by simp_all
  next
    assume h: "map_of (operations m) rid = Some ex \<and> truthy_time (end_time (result_obj ex)) = Some ended
        \<and> now - ended > cleanup_after m"
    then have gone: "map_of (operations (snd (cleanup_completed m now))) rid = None"
      using removed by simp
    show "map_of (operations (snd (cleanup_completed m now))) rid = None" by (rule gone)
    show "get_status (snd (cleanup_completed m now)) rid later = (None, snd (cleanup_completed m now))"
      using after [OF gone] by simp
    show "cancel_operation (snd (cleanup_completed m now)) rid later
          = (False, snd (cleanup_completed m now))"
      using after [OF gone] by simp
  qed
qed

theorem absent_id_is_noop_witness:
  "get_status (new_manager 10 3600 :: (unit, unit, nat) async_operation_manager) ''never'' 7
     = (None, new_manager 10 3600)
   \<and> cancel_operation (new_manager 10 3600 :: (unit, unit, nat) async_operation_manager) ''never'' 7
     = (False, new_manager 10 3600)
   \<and> fst (get_status
        (snd (cleanup_completed
           (run_events (new_manager 10 3600 :: (unit, unit, nat) async_operation_manager)
              [StartOperation ''old'' ''load_layer'' () () None 1, WorkerBegins ''old'',
               WorkerEnds ''old'' (Returned 42) 2])
           4000))
        ''old'' 4001) = None"
proof -
  let ?empty = "new_manager 10 3600 :: (unit, unit, nat) async_operation_manager"
  let ?m = "run_events ?empty
              [StartOperation ''old'' ''load_layer'' () () None 1, WorkerBegins ''old'',
               WorkerEnds ''old'' (Returned 42) 2]"
  let ?ex = "run_end (run_begin (new_executor ''old'' ''load_layer'' () () None 1)) (Returned 42) 2
               :: (unit, unit, nat) async_command_executor"
  have absent: "map_of (operations ?empty) ''never'' = None"
    by (simp add: new_manager_def)
  have present: "map_of (operations ?m) ''old'' = Some ?ex"
    by (simp add: run_events_def start_operation_def new_manager_def active_count_def
        on_worker_def new_executor_def run_begin_def)
  have ended: "truthy_time (end_time (result_obj ?ex)) = Some 2"
    by (simp add: run_end_def run_begin_def new_executor_def truthy_time_def)
  have old: "4000 - 2 > cleanup_after ?m"
    by (simp add: run_events_def start_operation_def new_manager_def active_count_def
        on_worker_def new_executor_def run_begin_def)
  note a = absent_id_is_noop [of ?empty "''never''" 7, THEN conjunct1, rule_format, OF absent]
  note b = absent_id_is_noop [of ?m "''old''" 4000 ?ex 2 4001, THEN conjunct2, rule_format,
      OF conjI [OF present conjI [OF ended old]]]
  from b have "fst (get_status (snd (cleanup_completed ?m 4000)) ''old'' 4001) = None"
    by simp
  with a show ?thesis by blast
qed

section \<open>Properties of the sandbox\<close>

lemma subnodes_unfold: "subnodes node = insert node (\<Union>n \<in> set (iter_child_nodes node). subnodes n)"
  by (cases node) auto

lemma set_walk: "set (walk todo) = (\<Union>n \<in> set todo. subnodes n)"
proof (induction todo rule: walk.induct)
  case 1
  show ?case by simp
next
  case (2 node todo)
  show ?case
    using 2 subnodes_unfold [of node] by auto
qed

lemma first_raised_None: "first_raised check xs = None \<longleftrightarrow> (\<forall>x \<in> set xs. check x = None)"
  by (induction xs) (auto split: option.splits)

lemma validate_tree_None: "validate_tree tree = None \<longleftrightarrow> (\<forall>n \<in> subnodes tree. validate_node n = None)"
  unfolding validate_tree_def first_raised_None set_walk by simp


lemma import_class_not_allowed:
  "''Import'' \<notin> set ALLOWED_NODES" "''ImportFrom'' \<notin> set ALLOWED_NODES"
  by (simp_all add: ALLOWED_NODES_def)

lemma import_node_rejected:
  assumes "n \<in> subnodes tree" and "class_name n = ''Import'' \<or> class_name n = ''ImportFrom''"
  shows "validate_tree tree \<noteq> None"
proof -
  have "validate_node n \<noteq> None"
    using assms(2) import_class_not_allowed by (auto simp: validate_node_def)
  then show ?thesis using assms(1) by (auto simp: validate_tree_None)
qed

text \<open>
  Claim C1 at its failing input. The tree of \<^verbatim>\<open>from qgis.core import QgsProject\<close> is a
  module with one \<^verbatim>\<open>ImportFrom\<close> node. \<^verbatim>\<open>_validate_import\<close> raises nothing for that
  node, but the loop of \<^verbatim>\<open>validate_code\<close> never reaches it: the class check rejects the
  node first, since \<^verbatim>\<open>ALLOWED_NODES\<close> holds neither \<^verbatim>\<open>ast.Import\<close> nor
  \<^verbatim>\<open>ast.ImportFrom\<close>. The same holds for \<^verbatim>\<open>import qgis.core\<close>.
\<close>

theorem allowed_import_is_rejected:
  "validate_import (ImportFrom (Some ''qgis.core'') [''QgsProject'']) = None
   \<and> validate_tree (Node ''Module'' [ImportFrom (Some ''qgis.core'') [''QgsProject'']])
       = Some (DisallowedOperation ''ImportFrom'')
   \<and> validate_import (Import [''qgis.core'']) = None
   \<and> validate_tree (Node ''Module'' [Import [''qgis.core'']])
       = Some (DisallowedOperation ''Import'')"
  by (simp add: validate_tree_def validate_node_def ALLOWED_NODES_def ALLOWED_MODULES_def)

lemma validate_code_keeps_sandbox: "snd (validate_code parse sandbox code) = sandbox"
  by (simp add: validate_code_def split: parse_result.splits option.splits)

lemma validate_code_accepts:
  "fst (validate_code parse sandbox code) = Inr ()
     \<longleftrightarrow> int (length code) \<le> max_code_length sandbox
         \<and> (\<exists>tree. parse code = Parsed tree \<and> (\<forall>n \<in> subnodes tree. validate_node n = None))"
proof (cases "parse code")
  case (Parsed tree)
  show ?thesis
  proof (cases "validate_tree tree")
    case None
    then have "\<forall>n \<in> subnodes tree. validate_node n = None"
      by (simp only: validate_tree_None)
    then show ?thesis using Parsed None by (simp add: validate_code_def)
  next
    case (Some e)
    then have "\<not> (\<forall>n \<in> subnodes tree. validate_node n = None)"
      using validate_tree_None [of tree] by simp
    then show ?thesis using Parsed Some by (simp add: validate_code_def)
  qed
qed (simp_all add: validate_code_def)

lemma length_attribute_chain: "length (attribute_chain n) = 5 + 2 * n"
  by (induction n) (simp_all add: attribute_chain_def)

text \<open>
  Claim C9 at its failing input. \<^verbatim>\<open>validate_code\<close> turns only the \<^verbatim>\<open>SyntaxError\<close> of
  \<^verbatim>\<open>ast.parse\<close> into a \<^verbatim>\<open>SecurityException\<close>. For code within the length limit on
  which \<^verbatim>\<open>ast.parse\<close> raises anything else, the call ends with that exception: neither
  acceptance nor a rejection. The sandbox is as it was.
\<close>

theorem parse_exception_escapes:
  assumes "int (length code) \<le> max_code_length sandbox" and "parse code = RaisesOther e"
  shows "validate_code parse sandbox code = (Inl (Uncaught e), sandbox)"
  using assms by (simp add: validate_code_def)

theorem parse_exception_escapes_witness:
  "validate_code (\<lambda>code. RaisesOther RecursionError)
     \<lparr>max_code_length = 102400, timeout_seconds = 30\<rparr> (attribute_chain 40000)
   = (Inl (Uncaught RecursionError), \<lparr>max_code_length = 102400, timeout_seconds = 30\<rparr>)"
proof -
  have short: "int (length (attribute_chain 40000))
      \<le> max_code_length \<lparr>max_code_length = 102400, timeout_seconds = 30\<rparr>"
    by (simp add: length_attribute_chain)
  show ?thesis
    by (rule parse_exception_escapes [OF short refl])
qed

section \<open>Properties of the dispatcher\<close>

lemma handle_authenticate_history:
  "request_history (rate_limiter (snd (handle_authenticate srv now msg client_id)))
     = request_history (rate_limiter srv)"
  by (simp add: handle_authenticate_def record_successful_auth_def record_failed_auth_def Let_def
      split: jval.splits)


lemma check_rate_limit_locked:
  assumes "map_of (lockouts rl) c = Some until" and "now < until"
  shows "check_rate_limit rl now c op = (Inl (ClientLockedOut \<lfloor>until - now\<rfloor>), rl)"
  using assms by (simp add: check_rate_limit_def)

lemma check_rate_limit_open:
  assumes "map_of (lockouts rl) c = None \<or> (\<exists>until. map_of (lockouts rl) c = Some until \<and> \<not> now < until)"
    and lim: "limits_get op = (mx, w)"
  shows "check_rate_limit rl now c op =
     (let key = history_key c op;
          kept = filter (\<lambda>t. t > now - w) (history_of rl key);
          rl2 = rl\<lparr>lockouts := AList.delete c (lockouts rl),
                   request_history := AList.update key kept (request_history rl)\<rparr>
      in if mx \<le> length kept then (Inr False, rl2)
         else (Inr True,
               rl2\<lparr>request_history :=
                     (let h3 = AList.update key (kept @ [now]) (request_history rl2)
                      in if length h3 > 1000 then cleanup_old_clients now h3 else h3)\<rparr>))"
  using assms(1)
  by (auto simp: check_rate_limit_def lim history_of_def Let_def)

lemma check_records_on_true:
  assumes "fst (check_rate_limit rl now c op) = Inr True"
  shows "history_of (snd (check_rate_limit rl now c op)) (history_key c op)
         = filter (\<lambda>t. t > now - snd (limits_get op)) (history_of rl (history_key c op)) @ [now]"
proof -
  let ?key = "history_key c op"
  obtain mx w where lim: "limits_get op = (mx, w)" by (cases "limits_get op")
  let ?kept = "filter (\<lambda>t. t > now - w) (history_of rl ?key)"
  let ?h3 = "AList.update ?key (?kept @ [now]) (AList.update ?key ?kept (request_history rl))"
  let ?h4 = "if length ?h3 > 1000 then cleanup_old_clients now ?h3 else ?h3"
  have h3: "map_of ?h3 ?key = Some (?kept @ [now])"
    by (simp add: update_conv')
  have h4: "map_of ?h4 ?key = Some (?kept @ [now])"
    using h3 by (simp add: cleanup_keeps_recent)
  have "\<not> (\<exists>until. map_of (lockouts rl) c = Some until \<and> now < until)"
    using assms check_rate_limit_locked [of rl c _ now op] by auto
  then have opened: "map_of (lockouts rl) c = None
      \<or> (\<exists>until. map_of (lockouts rl) c = Some until \<and> \<not> now < until)"
    by (cases "map_of (lockouts rl) c") auto
  have room: "\<not> mx \<le> length ?kept"
    using assms check_rate_limit_open [OF opened lim] by (auto simp: Let_def)
  have "request_history (snd (check_rate_limit rl now c op)) = ?h4"
    using room check_rate_limit_open [OF opened lim] by (simp add: Let_def)
  then show ?thesis using h4 by (simp add: history_of_def lim)
qed

lemma check_records_nothing_on_false:
  assumes "fst (check_rate_limit rl now c op) = Inr False"
  shows "history_of (snd (check_rate_limit rl now c op)) (history_key c op)
         = filter (\<lambda>t. t > now - snd (limits_get op)) (history_of rl (history_key c op))"
proof -
  let ?key = "history_key c op"
  obtain mx w where lim: "limits_get op = (mx, w)" by (cases "limits_get op")
  let ?kept = "filter (\<lambda>t. t > now - w) (history_of rl ?key)"
  have "\<not> (\<exists>until. map_of (lockouts rl) c = Some until \<and> now < until)"
    using assms check_rate_limit_locked [of rl c _ now op] by auto
  then have opened: "map_of (lockouts rl) c = None
      \<or> (\<exists>until. map_of (lockouts rl) c = Some until \<and> \<not> now < until)"
    by (cases "map_of (lockouts rl) c") auto
  have full: "mx \<le> length ?kept"
    using assms check_rate_limit_open [OF opened lim] by (auto simp: Let_def split: if_splits)
  have "request_history (snd (check_rate_limit rl now c op))
        = AList.update ?key ?kept (request_history rl)"
    using full check_rate_limit_open [OF opened lim] by (simp add: Let_def)
  then show ?thesis by (simp add: history_of_def lim update_conv')
qed

lemma check_unchanged_on_raise:
  assumes "fst (check_rate_limit rl now c op) = Inl e"
  shows "snd (check_rate_limit rl now c op) = rl"
proof (cases "\<exists>until. map_of (lockouts rl) c = Some until \<and> now < until")
  case True
  then show ?thesis using check_rate_limit_locked [of rl c _ now op] by auto
next
  case False
  then have opened: "map_of (lockouts rl) c = None
      \<or> (\<exists>until. map_of (lockouts rl) c = Some until \<and> \<not> now < until)"
    by (cases "map_of (lockouts rl) c") auto
  obtain mx w where lim: "limits_get op = (mx, w)" by (cases "limits_get op")
  show ?thesis
    using assms check_rate_limit_open [OF opened lim] by (auto simp: Let_def split: if_splits)
qed

lemma process_message_unauthenticated:
  assumes "require_auth srv" and "\<not> authenticated"
    and "dict_get msg ''type'' (JStr ''unknown'') \<noteq> JStr ''authenticate''"
  shows "process_message domain srv now later msg client_id authenticated
         = (failure (dict_get msg ''id'' (JStr ''0'')) AuthenticationRequired, srv)"
  using assms by (simp add: process_message_def)

lemma process_message_history:
  assumes "\<not> (require_auth srv \<and> \<not> authenticated
              \<and> dict_get msg ''type'' (JStr ''unknown'') \<noteq> JStr ''authenticate'')"
  shows "request_history (rate_limiter (snd (process_message domain srv now later msg client_id authenticated)))
         = request_history (snd (check_rate_limit (rate_limiter srv) now client_id
               (get_operation_type (dict_get msg ''type'' (JStr ''unknown'')))))"
proof -
  let ?ty = "dict_get msg ''type'' (JStr ''unknown'')"
  obtain checked rl where chk:
    "check_rate_limit (rate_limiter srv) now client_id (get_operation_type ?ty) = (checked, rl)"
    by (cases "check_rate_limit (rate_limiter srv) now client_id (get_operation_type ?ty)")
  have auth: "request_history (rate_limiter (snd (handle_authenticate (srv\<lparr>rate_limiter := rl\<rparr>) later msg client_id)))
              = request_history rl"
    using handle_authenticate_history [of "srv\<lparr>rate_limiter := rl\<rparr>" later msg client_id] by simp
  show ?thesis
  proof (cases checked)
    case (Inl e)
    then show ?thesis using assms chk by (auto simp: process_message_def Let_def)
  next
    case (Inr ok)
    show ?thesis
    proof (cases ok)
      case False
      then show ?thesis using assms chk Inr by (auto simp: process_message_def Let_def)
    next
      case True
      show ?thesis
      proof (cases ?ty)
        case (JStr name)
        show ?thesis
        proof (cases "name = ''authenticate''")
          case yes: True
          obtain outcome srv2 where h:
            "handle_authenticate (srv\<lparr>rate_limiter := rl\<rparr>) later msg client_id = (outcome, srv2)"
            by (cases "handle_authenticate (srv\<lparr>rate_limiter := rl\<rparr>) later msg client_id")
          have "request_history (rate_limiter srv2) = request_history rl"
            using auth h by simp
          then show ?thesis using chk Inr True JStr yes h
            by (cases outcome) (auto simp: process_message_def Let_def command_names_def)
        next
          case no: False
          then show ?thesis using assms chk Inr True JStr
            by (cases "domain name msg client_id")
               (auto simp: process_message_def Let_def)
        qed
      qed (use assms chk Inr True in \<open>auto simp: process_message_def Let_def\<close>)
    qed
  qed
qed


text \<open>
  Claim C2, as amended. A message other than \<^verbatim>\<open>authenticate\<close> from a client that is not
  yet authenticated, when authentication is required, is answered with "Authentication
  required" before the limiter is consulted: the server is as it was and no slot is
  consumed. For every other message, \<^verbatim>\<open>authenticate\<close> included, the request history
  after the dispatch is the one left by one \<open>check_rate_limit\<close> for the message's
  operation type. That check records the request when it returns \<open>True\<close>; when it
  returns \<open>False\<close> it only prunes the window, and when it raises it changes nothing.
\<close>

theorem dispatcher_rate_budget:
  "(require_auth srv \<and> \<not> authenticated
      \<and> dict_get msg ''type'' (JStr ''unknown'') \<noteq> JStr ''authenticate'' \<longrightarrow>
      process_message domain srv now later msg client_id authenticated
        = (failure (dict_get msg ''id'' (JStr ''0'')) AuthenticationRequired, srv))
   \<and> (\<not> (require_auth srv \<and> \<not> authenticated
           \<and> dict_get msg ''type'' (JStr ''unknown'') \<noteq> JStr ''authenticate'') \<longrightarrow>
      request_history (rate_limiter (snd (process_message domain srv now later msg client_id authenticated)))
        = request_history (snd (check_rate_limit (rate_limiter srv) now client_id
              (get_operation_type (dict_get msg ''type'' (JStr ''unknown''))))))
   \<and> (fst (check_rate_limit rl now client_id op) = Inr True \<longrightarrow>
      history_of (snd (check_rate_limit rl now client_id op)) (history_key client_id op)
        = filter (\<lambda>t. t > now - snd (limits_get op)) (history_of rl (history_key client_id op)) @ [now])
   \<and> (fst (check_rate_limit rl now client_id op) = Inr False \<longrightarrow>
      history_of (snd (check_rate_limit rl now client_id op)) (history_key client_id op)
        = filter (\<lambda>t. t > now - snd (limits_get op)) (history_of rl (history_key client_id op)))
   \<and> (isl (fst (check_rate_limit rl now client_id op)) \<longrightarrow>
      snd (check_rate_limit rl now client_id op) = rl)"
proof -
  have raised: "snd (check_rate_limit rl now client_id op) = rl"
    if raises: "isl (fst (check_rate_limit rl now client_id op))"
  proof -
    obtain e where "fst (check_rate_limit rl now client_id op) = Inl e"
      using raises by (auto simp: isl_def)
    then show ?thesis by (rule check_unchanged_on_raise)
  qed
  show ?thesis
    using process_message_unauthenticated [of srv authenticated msg domain now later client_id]
      process_message_history [of srv authenticated msg domain now later client_id]
      check_records_on_true [of rl now client_id op]
      check_records_nothing_on_false [of rl now client_id op]
      raised
    by blast
qed

text \<open>
  Claim C2 as stated fails: the server requires authentication, the client is not
  authenticated and sends \<^verbatim>\<open>ping\<close>. The request history stays empty, whereas the same
  message from an authenticated client leaves one entry under the client's key for the
  class \<^verbatim>\<open>cheap\<close>.
\<close>

theorem unauthenticated_ping_counterexample:
  "request_history (rate_limiter (snd (process_message (host_without_qgis ''2025-01-01T00:00:00'' (JDict []))
       \<lparr>require_auth = True, rate_limiter = new_rate_limiter,
        api_token = ''0123456789abcdef0123456789abcdef'', authenticated_clients = {}\<rparr>
       100 100 [(''type'', JStr ''ping''), (''id'', JStr ''2'')] ''127.0.0.1:50000'' False)))
     = []
   \<and> request_history (rate_limiter (snd (process_message (host_without_qgis ''2025-01-01T00:00:00'' (JDict []))
       \<lparr>require_auth = True, rate_limiter = new_rate_limiter,
        api_token = ''0123456789abcdef0123456789abcdef'', authenticated_clients = {}\<rparr>
       100 100 [(''type'', JStr ''ping''), (''id'', JStr ''2'')] ''127.0.0.1:50000'' True)))
     = [(''127.0.0.1:50000:cheap'', [100])]"
  by (simp add: process_message_def dict_get_def new_rate_limiter_def get_operation_type_def
      check_rate_limit_def limits_get_def limits_def history_key_def command_names_def
      host_without_qgis_def failure_def)

theorem dispatcher_rate_budget_witness:
  "process_message (host_without_qgis ''2025-01-01T00:00:00'' (JDict []))
       \<lparr>require_auth = True, rate_limiter = new_rate_limiter,
        api_token = ''0123456789abcdef0123456789abcdef'', authenticated_clients = {}\<rparr>
       100 100 [(''type'', JStr ''list_layers''), (''id'', JStr ''2'')] ''127.0.0.1:50000'' False
     = (failure (JStr ''2'') AuthenticationRequired,
        \<lparr>require_auth = True, rate_limiter = new_rate_limiter,
         api_token = ''0123456789abcdef0123456789abcdef'', authenticated_clients = {}\<rparr>)
   \<and> history_of (rate_limiter (snd (process_message (host_without_qgis ''2025-01-01T00:00:00'' (JDict []))
       \<lparr>require_auth = True, rate_limiter = new_rate_limiter,
        api_token = ''0123456789abcdef0123456789abcdef'', authenticated_clients = {}\<rparr>
       100 100 [(''type'', JStr ''list_layers''), (''id'', JStr ''3'')] ''127.0.0.1:50000'' True)))
       (history_key ''127.0.0.1:50000'' ''normal'')
     = [100]"
proof -
  let ?srv = "\<lparr>require_auth = True, rate_limiter = new_rate_limiter,
        api_token = ''0123456789abcdef0123456789abcdef'', authenticated_clients = {}\<rparr>"
  let ?c = "''127.0.0.1:50000''"
  let ?m2 = "[(''type'', JStr ''list_layers''), (''id'', JStr ''2'')]"
  let ?m3 = "[(''type'', JStr ''list_layers''), (''id'', JStr ''3'')]"
  have guard: "require_auth ?srv \<and> \<not> False
      \<and> dict_get ?m2 ''type'' (JStr ''unknown'') \<noteq> JStr ''authenticate''"
    by (simp add: dict_get_def)
  have a: "process_message (host_without_qgis ''2025-01-01T00:00:00'' (JDict [])) ?srv 100 100 ?m2 ?c False
           = (failure (JStr ''2'') AuthenticationRequired, ?srv)"
    using dispatcher_rate_budget [of ?srv False ?m2 "host_without_qgis ''2025-01-01T00:00:00'' (JDict [])" 100 100 ?c,
        THEN conjunct1, rule_format, OF guard]
    by (simp add: dict_get_def)
  have pass: "\<not> (require_auth ?srv \<and> \<not> True
      \<and> dict_get ?m3 ''type'' (JStr ''unknown'') \<noteq> JStr ''authenticate'')"
    by simp
  have ty: "get_operation_type (dict_get ?m3 ''type'' (JStr ''unknown'')) = ''normal''"
    by (simp add: dict_get_def get_operation_type_def)
  have ok: "fst (check_rate_limit new_rate_limiter 100 ?c ''normal'') = Inr True"
    by (simp add: check_rate_limit_def new_rate_limiter_def limits_get_def limits_def Let_def)
  have empty: "history_of new_rate_limiter (history_key ?c ''normal'') = []"
    by (simp add: history_of_def new_rate_limiter_def)
  have b: "request_history (rate_limiter (snd (process_message (host_without_qgis ''2025-01-01T00:00:00'' (JDict [])) ?srv 100 100 ?m3 ?c True)))
           = request_history (snd (check_rate_limit new_rate_limiter 100 ?c ''normal''))"
    using dispatcher_rate_budget [of ?srv True ?m3 "host_without_qgis ''2025-01-01T00:00:00'' (JDict [])" 100 100 ?c,
        THEN conjunct2, THEN conjunct1, rule_format, OF pass]
    unfolding ty by simp
  have c: "history_of (snd (check_rate_limit new_rate_limiter 100 ?c ''normal'')) (history_key ?c ''normal'')
           = [100]"
    using dispatcher_rate_budget [of _ _ _ _ 100 _ ?c new_rate_limiter "''normal''",
        THEN conjunct2, THEN conjunct2, THEN conjunct1, rule_format, OF ok]
    unfolding empty by simp
  have "history_of (rate_limiter (snd (process_message (host_without_qgis ''2025-01-01T00:00:00'' (JDict [])) ?srv 100 100 ?m3 ?c True)))
          (history_key ?c ''normal'') = [100]"
    using b c by (simp add: history_of_def)
  with a show ?thesis by blast
qed

section \<open>Properties of the framing\<close>

lemma byte_of_nat: "unat (of_nat k :: byte) = k mod 256"
  by (simp add: unat_of_nat)

lemma four_digits:
  fixes n :: nat
  assumes "n < 4294967296"
  shows "(n div 16777216) mod 256 * 16777216 + (n div 65536) mod 256 * 65536
         + (n div 256) mod 256 * 256 + n mod 256 = n"
proof -
  define q1 where "q1 = n div 256"
  define q2 where "q2 = q1 div 256"
  define q3 where "q3 = q2 div 256"
  have e2: "n div 65536 = q2"
    unfolding q2_def q1_def by (simp add: div_mult2_eq [symmetric])
  have e3: "n div 16777216 = q3"
    unfolding q3_def q2_def q1_def by (simp add: div_mult2_eq [symmetric])
  have "q3 < 256" using assms unfolding e3 [symmetric] by simp
  then have m3: "q3 mod 256 = q3" by simp
  have d1: "n = q1 * 256 + n mod 256" unfolding q1_def by simp
  have d2: "q1 = q2 * 256 + q1 mod 256" unfolding q2_def by simp
  have d3: "q2 = q3 * 256 + q2 mod 256" unfolding q3_def by simp
  have "q3 * 16777216 + q2 mod 256 * 65536 + q1 mod 256 * 256 + n mod 256 = n"
    using d1 d2 d3 by linarith
  then show ?thesis
    unfolding e2 e3 m3 q1_def [symmetric] .
qed

lemma unpack_pack_header:
  assumes "n < 4294967296"
  shows "unpack_header (pack_header n) = n"
  using four_digits [OF assms]
  by (simp only: unpack_header_def pack_header_def list.case byte_of_nat)


lemma length_pack_header [simp]: "length (pack_header n) = 4"
  by (simp add: pack_header_def)

lemma max_fits_header: "n \<le> MAX_MESSAGE_SIZE \<Longrightarrow> n < 4294967296"
  by (simp add: MAX_MESSAGE_SIZE_def)

lemma header_of_prefix:
  assumes "pre @ rest = pack_header n @ payload" and "4 \<le> length pre"
  shows "take 4 pre = pack_header n"
proof -
  have "take 4 (pre @ rest) = take 4 (pack_header n @ payload)" using assms(1) by simp
  then show ?thesis using assms(2) by simp
qed

lemma try_read_short:
  "length (buffer st) < 4 \<Longrightarrow> try_read_message lib h st = (Inr None, st)"
  by (simp add: try_read_message_def HEADER_SIZE_def)

lemma try_read_incomplete:
  assumes inv: "reading n pre st" and le: "n \<le> MAX_MESSAGE_SIZE"
    and pre: "pre @ rest = pack_header n @ payload" and len: "length payload = n"
    and short: "length pre < 4 + n"
  shows "\<exists>st'. try_read_message lib h st = (Inr None, st') \<and> reading n pre st'"
proof (cases "length pre < 4")
  case True
  then have "expected_message_size st = None"
    using inv by (auto simp: reading_def HEADER_SIZE_def)
  then show ?thesis using True inv try_read_short [of st lib h]
    by (auto simp: reading_def)
next
  case False
  then have four: "4 \<le> length pre" by simp
  have hdr: "unpack_header (take 4 (buffer st)) = n"
    using header_of_prefix [OF pre four] inv unpack_pack_header [OF max_fits_header [OF le]]
    by (simp add: reading_def)
  have pos: "0 < n" using short four by simp
  have size: "(case expected_message_size st of
                 None \<Rightarrow> unpack_header (take HEADER_SIZE (buffer st)) | Some k \<Rightarrow> k) = n"
    using inv hdr by (auto simp: reading_def HEADER_SIZE_def)
  have "try_read_message lib h st = (Inr None, st\<lparr>expected_message_size := Some n\<rparr>)"
    using four pos le short inv
    by (simp add: try_read_message_def size Let_def reading_def HEADER_SIZE_def)
  then show ?thesis using inv four pos by (simp add: reading_def HEADER_SIZE_def)
qed

lemma try_read_complete:
  assumes inv: "reading n (pack_header n @ payload) st" and le: "n \<le> MAX_MESSAGE_SIZE"
    and len: "length payload = n" and pos: "0 < n"
  shows "try_read_message lib h st =
           (case read_payload lib h payload of Inl e \<Rightarrow> Inl e | Inr msg \<Rightarrow> Inr (Some msg),
            empty_buffer)"
proof -
  have buf: "buffer st = pack_header n @ payload" using inv by (simp add: reading_def)
  have hdr: "unpack_header (take 4 (buffer st)) = n"
    using unpack_pack_header [OF max_fits_header [OF le]] by (simp add: buf)
  have size: "(case expected_message_size st of
                 None \<Rightarrow> unpack_header (take HEADER_SIZE (buffer st)) | Some k \<Rightarrow> k) = n"
    using inv hdr by (auto simp: reading_def HEADER_SIZE_def)
  show ?thesis
    using pos le len
    by (simp add: try_read_message_def size Let_def buf HEADER_SIZE_def empty_buffer_def
        split: sum.splits)
qed

lemma try_read_zero:
  assumes inv: "reading 0 (pack_header 0) st"
  shows "try_read_message lib h st = (Inl ZeroLengthMessage, empty_buffer)"
proof -
  have buf: "buffer st = pack_header 0" and fresh: "expected_message_size st = None"
    using inv by (auto simp: reading_def)
  have zero: "unpack_header (pack_header 0) = 0"
    by (rule unpack_pack_header) simp
  show ?thesis
    by (simp add: try_read_message_def fresh zero Let_def buf HEADER_SIZE_def empty_buffer_def
        clear_buffer_def)
qed

lemma feed_chunks_idle:
  "\<forall>c \<in> set chunks. c = [] \<Longrightarrow> feed_chunks lib h empty_buffer chunks = ([], None, empty_buffer)"
  by (induction chunks)
     (simp_all add: feed_data_def empty_buffer_def try_read_message_def HEADER_SIZE_def)


lemma feed_chunks_within:
  assumes inv: "reading n pre st" and le: "n \<le> MAX_MESSAGE_SIZE" and len: "length payload = n"
    and parts: "pre @ concat chunks = pack_header n @ payload"
    and more: "length pre < 4 + n"
    and fits: "4 + n \<le> MAX_MESSAGE_SIZE"
  shows "feed_chunks lib h st chunks = frame_outcome lib h payload"
  using inv parts more
proof (induction chunks arbitrary: st pre)
  case Nil
  then have "length pre = 4 + n" using len by (metis append_Nil2 concat.simps(1) length_append length_pack_header)
  then show ?case using Nil.prems(3) by simp
next
  case (Cons c cs)
  have buf: "buffer st = pre" using Cons.prems(1) by (simp add: reading_def)
  have total: "length pre + length c + length (concat cs) = 4 + n"
  proof -
    have "length (pre @ concat (c # cs)) = length (pack_header n @ payload)"
      using Cons.prems(2) by simp
    then show ?thesis using len by simp
  qed
  then have room: "\<not> length (buffer st) + length c > MAX_MESSAGE_SIZE"
    using fits buf by simp
  let ?st1 = "st\<lparr>buffer := buffer st @ c\<rparr>"
  have fed: "feed_data st c = Inr ?st1" using room by (simp add: feed_data_def)
  have inv1: "reading n (pre @ c) ?st1"
    using Cons.prems(1) by (auto simp: reading_def)
  show ?case
  proof (cases "length (pre @ c) < 4 + n")
    case True
    have "(pre @ c) @ concat cs = pack_header n @ payload" using Cons.prems(2) by simp
    from try_read_incomplete [OF inv1 le this len True, of lib h] obtain st' where
      r: "try_read_message lib h ?st1 = (Inr None, st')" and inv': "reading n (pre @ c) st'"
      by blast
    have "feed_chunks lib h st' cs = frame_outcome lib h payload"
      using Cons.IH [OF inv' _ True] Cons.prems(2) by simp
    then show ?thesis using fed r by simp
  next
    case False
    then have "4 + n \<le> length pre + length c" by simp
    then have "length (concat cs) = 0" using total by linarith
    then have rest: "concat cs = []" by (simp only: length_0_conv)
    have "pre @ c @ concat cs = pack_header n @ payload" using Cons.prems(2) by simp
    then have whole: "pre @ c = pack_header n @ payload" unfolding rest by simp
    have "\<forall>x \<in> set cs. x = []" using rest by simp
    then have idle: "feed_chunks lib h empty_buffer cs = ([], None, empty_buffer)"
      by (rule feed_chunks_idle)
    show ?thesis
    proof (cases "n = 0")
      case True
      then have "payload = []" using len by simp
      then have "reading 0 (pack_header 0) ?st1" using inv1 whole True by simp
      then have "try_read_message lib h ?st1 = (Inl ZeroLengthMessage, empty_buffer)"
        by (rule try_read_zero)
      then show ?thesis using fed True len by (simp add: frame_outcome_def)
    next
      case False
      then have pos: "0 < n" by simp
      have "reading n (pack_header n @ payload) ?st1" using inv1 whole by simp
      from try_read_complete [OF this le len pos, of lib h]
      show ?thesis using fed idle pos len
        by (cases "read_payload lib h payload") (simp_all add: frame_outcome_def)
    qed
  qed
qed

lemma feed_chunks_overflow:
  assumes inv: "reading n pre st" and le: "n \<le> MAX_MESSAGE_SIZE" and len: "length payload = n"
    and parts: "pre @ concat chunks = pack_header n @ payload"
    and held: "length pre \<le> MAX_MESSAGE_SIZE"
    and over: "MAX_MESSAGE_SIZE < 4 + n"
  shows "\<exists>k st'. feed_chunks lib h st chunks = ([], Some (BufferOverflow k), st')
           \<and> MAX_MESSAGE_SIZE < k"
  using inv parts held
proof (induction chunks arbitrary: st pre)
  case Nil
  then have "length pre = 4 + n" using len by (metis append_Nil2 concat.simps(1) length_append length_pack_header)
  then show ?case using Nil.prems(3) over by simp
next
  case (Cons c cs)
  have buf: "buffer st = pre" using Cons.prems(1) by (simp add: reading_def)
  have total: "length pre + length c + length (concat cs) = 4 + n"
  proof -
    have "length (pre @ concat (c # cs)) = length (pack_header n @ payload)"
      using Cons.prems(2) by simp
    then show ?thesis using len by simp
  qed
  show ?case
  proof (cases "length (buffer st) + length c > MAX_MESSAGE_SIZE")
    case True
    then show ?thesis by (auto simp: feed_data_def)
  next
    case False
    let ?st1 = "st\<lparr>buffer := buffer st @ c\<rparr>"
    have fed: "feed_data st c = Inr ?st1" using False by (simp add: feed_data_def)
    have inv1: "reading n (pre @ c) ?st1"
      using Cons.prems(1) by (auto simp: reading_def)
    have held1: "length (pre @ c) \<le> MAX_MESSAGE_SIZE" using False buf by simp
    then have short: "length (pre @ c) < 4 + n" using over by simp
    have "(pre @ c) @ concat cs = pack_header n @ payload" using Cons.prems(2) by simp
    from try_read_incomplete [OF inv1 le this len short, of lib h] obtain st' where
      r: "try_read_message lib h ?st1 = (Inr None, st')" and inv': "reading n (pre @ c) st'"
      by blast
    have "\<exists>k st''. feed_chunks lib h st' cs = ([], Some (BufferOverflow k), st'')
           \<and> MAX_MESSAGE_SIZE < k"
      using Cons.IH [OF inv' _ held1] Cons.prems(2) by simp
    then show ?thesis using fed r by simp
  qed
qed

lemma reading_empty: "reading n [] empty_buffer"
  by (simp add: reading_def empty_buffer_def)

lemma pack_message_frame:
  assumes "pack_message enc h msg = Inr frame"
  shows "\<exists>payload. frame = pack_header (length payload) @ payload
           \<and> length payload \<le> MAX_MESSAGE_SIZE
           \<and> validate_message h msg = None \<and> serialize enc h msg = Inr payload"
  using assms
  by (auto simp: pack_message_def split: option.splits sum.splits if_splits)


lemma escape_plain: "concat (map escape_char (replicate n (CHR ''x''))) = replicate n (CHR ''x'')"
  by (induction n) (simp_all add: escape_char_def)

lemma dumps_padded_ping:
  "dumps (JDict (padded_ping n))
     = ''{\"type\": \"ping\", \"id\": \"1\", \"data\": {\"pad\": \"'' @ replicate n (CHR ''x'') @ ''\"}}''"
  by (simp add: padded_ping_def dumps_string_def escape_plain escape_char_def)


lemma whole_frame_within:
  assumes "length payload \<le> MAX_MESSAGE_SIZE" and "4 + length payload \<le> MAX_MESSAGE_SIZE"
  shows "feed_chunks lib h empty_buffer [pack_header (length payload) @ payload]
         = frame_outcome lib h payload"
proof -
  show ?thesis
  proof (rule feed_chunks_within [OF reading_empty assms(1) refl _ _ assms(2)])
    show "[] @ concat [pack_header (length payload) @ payload]
          = pack_header (length payload) @ payload" by simp
    show "length ([] :: byte list) < 4 + length payload" by simp
  qed
qed

text \<open>
  Claim C6. A frame is what \<open>pack_message\<close> returns; \<open>chunks\<close> is any split of it
  into consecutive pieces, empty ones included. A frame that fits the buffer is read
  the same from the pieces as from the whole: the same messages, the same exception if
  the payload does not decode or validate, the same buffer at the end. A frame longer
  than the buffer limit ends both readers with the buffer-overflow exception and no
  message; only the byte count in its text depends on the split.
\<close>

theorem fragmentation_tolerance:
  assumes packed: "pack_message enc h msg = Inr frame" and split: "concat chunks = frame"
  shows "(length frame \<le> MAX_MESSAGE_SIZE \<longrightarrow>
            feed_chunks dec reader empty_buffer chunks = feed_chunks dec reader empty_buffer [frame])
       \<and> (MAX_MESSAGE_SIZE < length frame \<longrightarrow>
            (\<exists>k st. feed_chunks dec reader empty_buffer chunks = ([], Some (BufferOverflow k), st)
                    \<and> MAX_MESSAGE_SIZE < k)
            \<and> feed_chunks dec reader empty_buffer [frame]
                = ([], Some (BufferOverflow (length frame)), empty_buffer))"
proof -
  obtain payload where frame: "frame = pack_header (length payload) @ payload"
    and le: "length payload \<le> MAX_MESSAGE_SIZE"
    using pack_message_frame [OF packed] by blast
  have parts: "[] @ concat chunks = pack_header (length payload) @ payload"
    using split frame by simp
  have within: "feed_chunks dec reader empty_buffer chunks = feed_chunks dec reader empty_buffer [frame]"
    if fits: "length frame \<le> MAX_MESSAGE_SIZE"
  proof -
    have fits': "4 + length payload \<le> MAX_MESSAGE_SIZE" using fits frame by simp
    have "feed_chunks dec reader empty_buffer chunks = frame_outcome dec reader payload"
      by (rule feed_chunks_within [OF reading_empty le refl parts _ fits']) simp
    then show ?thesis using whole_frame_within [OF le fits', of dec reader] frame by simp
  qed
  have beyond: "(\<exists>k st. feed_chunks dec reader empty_buffer chunks = ([], Some (BufferOverflow k), st)
                    \<and> MAX_MESSAGE_SIZE < k)
            \<and> feed_chunks dec reader empty_buffer [frame]
                = ([], Some (BufferOverflow (length frame)), empty_buffer)"
    if over: "MAX_MESSAGE_SIZE < length frame"
  proof -
    have over': "MAX_MESSAGE_SIZE < 4 + length payload" using over frame by simp
    have "\<exists>k st. feed_chunks dec reader empty_buffer chunks = ([], Some (BufferOverflow k), st)
                    \<and> MAX_MESSAGE_SIZE < k"
      by (rule feed_chunks_overflow [OF reading_empty le refl parts _ over']) simp
    moreover have "feed_chunks dec reader empty_buffer [frame]
                = ([], Some (BufferOverflow (length frame)), empty_buffer)"
      using over by (simp add: feed_data_def empty_buffer_def)
    ultimately show ?thesis by blast
  qed
  show ?thesis using within beyond by blast
qed



lemma length_encode_ascii [simp]: "length (encode_ascii s) = length s"
  by (simp add: encode_ascii_def)

lemma base_schema: "map_of MESSAGE_SCHEMAS ''ping'' = None"
  by (simp add: MESSAGE_SCHEMAS_def)

lemma validate_ping: "validate_message json_handler ping_message = None"
  by (simp add: validate_message_def json_handler_def ping_message_def base_schema
      MESSAGE_SCHEMAS_def jsonschema_validate_def)

lemma validate_padded_ping: "validate_message json_handler (padded_ping n) = None"
  by (simp add: validate_message_def json_handler_def padded_ping_def base_schema
      MESSAGE_SCHEMAS_def jsonschema_validate_def)

lemma length_padded_ping: "length (dumps (JDict (padded_ping n))) = 48 + n"
  by (simp add: dumps_padded_ping del: dumps.simps)

lemma length_ping: "length (dumps (JDict ping_message)) = 33"
  by (simp add: ping_message_def dumps_string_def escape_char_def)

lemma serialize_json: "serialize json_only json_handler msg = Inr (encode_ascii (dumps (JDict msg)))"
  by (simp add: serialize_def json_only_def json_handler_def)

lemma deserialize_table:
  "deserialize (json_table [JDict msg]) json_handler (encode_ascii (dumps (JDict msg))) = Inr msg"
  by (simp add: deserialize_def json_table_def json_handler_def)


theorem fragmentation_tolerance_witness:
  "feed_chunks (json_table [JDict ping_message]) json_handler empty_buffer
     [take 7 (pack_header 33 @ encode_ascii (dumps (JDict ping_message))), [],
      drop 7 (pack_header 33 @ encode_ascii (dumps (JDict ping_message)))]
   = feed_chunks (json_table [JDict ping_message]) json_handler empty_buffer
       [pack_header 33 @ encode_ascii (dumps (JDict ping_message))]"
proof -
  let ?frame = "pack_header 33 @ encode_ascii (dumps (JDict ping_message))"
  have packed: "pack_message json_only json_handler ping_message = Inr ?frame"
    by (simp add: pack_message_def validate_ping serialize_json length_ping MAX_MESSAGE_SIZE_def
        del: dumps.simps)
  have split: "concat [take 7 ?frame, [], drop 7 ?frame] = ?frame"
    by simp
  have fits: "length ?frame \<le> MAX_MESSAGE_SIZE"
    by (simp add: length_ping MAX_MESSAGE_SIZE_def del: dumps.simps)
  show ?thesis
    using fragmentation_tolerance [OF packed split, of "json_table [JDict ping_message]" json_handler,
        THEN conjunct1, rule_format, OF fits] .
qed


end
